theory Spec2Isabelle
  imports Main "HOL-Library.Word"
begin

unbundle bit_operations_syntax

section \<open>Machine types and library constants\<close>

text \<open>
  The C types of \<^verbatim>\<open>ffmpeg.c\<close>: \<^verbatim>\<open>int\<close> is a 32-bit word, \<^verbatim>\<open>int64_t\<close> and
  \<^verbatim>\<open>size_t\<close> are 64-bit words. Arithmetic wraps around; signed comparisons are
  written \<open><s\<close> and \<open>\<le>s\<close>, a conversion that sign-extends is \<open>scast\<close>, one that
  truncates or zero-extends is \<open>ucast\<close>. Pointers to queue items are addresses;
  \<^verbatim>\<open>NULL\<close> is \<open>None\<close>.
\<close>

type_synonym int32 = "32 word"
type_synonym int64 = "64 word"
type_synonym size_t = "64 word"
type_synonym addr = nat

text \<open>
  A call that takes a lock and may wait on a condition variable runs up to the
  point where it returns or where it enters \<^verbatim>\<open>pthread_cond_wait\<close>. \<open>Waits\<close> is the
  second case: the state is the one the thread leaves behind while it sleeps, and
  the call goes on from the head of its wait loop when it is woken. \<open>Faults\<close> is a
  dereference of \<^verbatim>\<open>NULL\<close> or of freed memory, an integer division that traps, or
  a write past the end of an array.
\<close>

datatype 'a call = Returns 'a | Waits | Faults

definition MAX_QUEUE_SIZE :: size_t where
  "MAX_QUEUE_SIZE = 15 * 1024 * 1024"

text \<open>\<^verbatim>\<open>AV_NOPTS_VALUE\<close> of libavutil: the bit pattern \<^verbatim>\<open>0x8000000000000000\<close>.\<close>

definition AV_NOPTS_VALUE :: int64 where
  "AV_NOPTS_VALUE = 0x8000000000000000"

record AVRational =
  num :: int32
  den :: int32

record AVStream =
  index :: int32
  time_base :: AVRational

record AVPacket =
  pts :: int64
  data :: addr
  size_pkt :: int32
  stream_index :: int32

record AVFrame =
  best_effort_timestamp :: int64
  sample_aspect_ratio :: AVRational
  width :: int32
  height :: int32
  nb_samples :: int32

section \<open>The data of \<^verbatim>\<open>ffmpeg.c\<close>\<close>

text \<open>
  The fields \<^verbatim>\<open>length\<close>, \<^verbatim>\<open>size\<close>, \<^verbatim>\<open>eof\<close>, \<^verbatim>\<open>abort\<close>, \<^verbatim>\<open>first\<close> and \<^verbatim>\<open>last\<close> of
  \<^verbatim>\<open>_packet_queue_t\<close> carry the suffix \<open>_q\<close>, the fields of \<^verbatim>\<open>_frame_dbuffer_t\<close>
  the suffix \<open>_d\<close>; \<^verbatim>\<open>frame[0]\<close> and \<^verbatim>\<open>frame[1]\<close> are \<open>frame0_d\<close> and \<open>frame1_d\<close>.
\<close>

record packet_queue_item =
  pkt :: AVPacket
  next_item :: "addr option"

record packet_queue =
  length_q :: int32
  size_q :: int32
  eof_q :: int32
  abort_q :: int32
  first_q :: "addr option"
  last_q :: "addr option"

record 'f frame_dbuffer =
  ready_d :: int32
  repeat_d :: int32
  abort_d :: int32
  frame0_d :: 'f
  frame1_d :: 'f

text \<open>
  What a worker thread asks of its collaborators, in call order: the calls on its
  outbound double buffer, on the scaler and on the resampler. \<open>Swr_convert n d c\<close>
  is \<^verbatim>\<open>swr_convert\<close> for at most \<open>n\<close> output samples, reading \<open>c\<close> input samples
  that start \<open>d\<close> samples into the frame (\<open>None\<close>: the input pointer is \<^verbatim>\<open>NULL\<close>).
\<close>

datatype ext_call =
    Dbuffer_ready int32
  | Dbuffer_abort
  | Sws_scale AVFrame
  | Av_reduce int64 int64
  | Swr_inject_silence int32
  | Swr_convert int32 "int32 option" int32

text \<open>
  \<^verbatim>\<open>av_ffmpeg_t\<close>, with the fields the functions below read or write. Three parts
  are not fields of the C struct: \<open>items\<close> is the memory that holds the queue
  items, \<open>brk\<close> the next address \<^verbatim>\<open>malloc\<close> hands out (it never hands out a live
  one), and \<open>video_calls\<close> and \<open>audio_calls\<close> record the calls of the two
  post-process workers. \<open>out_video_width\<close> and \<open>out_video_height\<close> are the
  \<^verbatim>\<open>width\<close> and \<^verbatim>\<open>height\<close> that the open function gives to both frames of
  \<^verbatim>\<open>out_video_buffer\<close>. The last five fields are what the overlays of the
  video worker read through \<^verbatim>\<open>av->s\<close>, whose type is declared outside this file.
  \<open>conf_timestamp\<close>, \<open>conf_subtitles\<close> and \<open>conf_txsubtitles\<close> say whether
  \<^verbatim>\<open>av->s->conf.timestamp\<close>, \<^verbatim>\<open>.subtitles\<close> and \<^verbatim>\<open>.txsubtitles\<close> are different from
  zero, which is all the worker tests. \<open>av_sub_is_text\<close> says whether
  \<^verbatim>\<open>get_subtitle_type(av->s->av_sub)\<close> is \<^verbatim>\<open>SUB_TEXT\<close>, and \<open>av_sub_text t\<close> is the
  string that \<^verbatim>\<open>get_text_subtitle(av->s->av_sub, t)\<close> returns.
\<close>

record av_ffmpeg =
  paused :: "8 word"
  last_paused :: int64
  video_time_base :: AVRational
  video_start_time :: int64
  video_queue :: packet_queue
  video_stream :: "AVStream option"
  video_eof :: int32
  out_video_width :: int32
  out_video_height :: int32
  audio_time_base :: AVRational
  audio_start_time :: int64
  audio_queue :: packet_queue
  audio_stream :: "AVStream option"
  audio_eof :: int32
  out_frame_size :: int32
  allowed_error :: int32
  subtitle_stream :: "AVStream option"
  subtitle_eof :: int32
  input_stall :: int32
  items :: "addr \<rightharpoonup> packet_queue_item"
  brk :: addr
  video_calls :: "ext_call list"
  audio_calls :: "ext_call list"
  conf_timestamp :: bool
  conf_subtitles :: bool
  conf_txsubtitles :: bool
  av_sub_is_text :: bool
  av_sub_text :: "int64 \<Rightarrow> string"

section \<open>The bounded packet queue\<close>

text \<open>
  The queue functions take the pointer \<^verbatim>\<open>q\<close>, which is \<^verbatim>\<open>&av->video_queue\<close> or
  \<^verbatim>\<open>&av->audio_queue\<close> at every call site.
\<close>

datatype queue_id = Video_queue | Audio_queue

fun queue_of :: "queue_id \<Rightarrow> av_ffmpeg \<Rightarrow> packet_queue" where
  "queue_of Video_queue av = video_queue av"
| "queue_of Audio_queue av = audio_queue av"

fun set_queue :: "queue_id \<Rightarrow> packet_queue \<Rightarrow> av_ffmpeg \<Rightarrow> av_ffmpeg" where
  "set_queue Video_queue Q av = av\<lparr>video_queue := Q\<rparr>"
| "set_queue Audio_queue Q av = av\<lparr>audio_queue := Q\<rparr>"

text \<open>
  \<^verbatim>\<open>sizeof(_packet_queue_item_t)\<close> depends on the libavcodec headers, so it is the
  parameter \<open>isz\<close> of the functions that use it. The sum
  \<^verbatim>\<open>pkt->size + sizeof(_packet_queue_item_t)\<close> is formed in \<^verbatim>\<open>size_t\<close>; adding it to
  or taking it from \<^verbatim>\<open>q->size\<close> converts the result back to \<^verbatim>\<open>int\<close>.
\<close>

definition size_add :: "int32 \<Rightarrow> int32 \<Rightarrow> size_t \<Rightarrow> int32" where
  "size_add s ps isz = ucast ((scast s :: size_t) + (scast ps + isz))"

definition size_sub :: "int32 \<Rightarrow> int32 \<Rightarrow> size_t \<Rightarrow> int32" where
  "size_sub s ps isz = ucast ((scast s :: size_t) - (scast ps + isz))"

definition packet_queue_init :: "av_ffmpeg \<Rightarrow> queue_id \<Rightarrow> av_ffmpeg" where
  "packet_queue_init av q =
     set_queue q ((queue_of q av)\<lparr>length_q := 0, size_q := 0, eof_q := 0, abort_q := 0\<rparr>) av"

definition packet_queue_abort :: "av_ffmpeg \<Rightarrow> queue_id \<Rightarrow> av_ffmpeg" where
  "packet_queue_abort av q = set_queue q ((queue_of q av)\<lparr>abort_q := 1\<rparr>) av"

text \<open>
  \<^verbatim>\<open>_packet_queue_write\<close> from the head of its wait loop. \<^verbatim>\<open>malloc\<close> is taken to
  succeed. The packet \<open>None\<close> is the \<^verbatim>\<open>NULL\<close> that marks the end of the stream.
\<close>

definition packet_queue_write ::
  "size_t \<Rightarrow> av_ffmpeg \<Rightarrow> queue_id \<Rightarrow> AVPacket option \<Rightarrow> int32 call \<times> av_ffmpeg" where
  "packet_queue_write isz av q pkt_opt =
     (case pkt_opt of
        None \<Rightarrow> (Returns 0, set_queue q ((queue_of q av)\<lparr>eof_q := 1\<rparr>) av)
      | Some p \<Rightarrow>
          if abort_q (queue_of q av) = 0 \<and>
             MAX_QUEUE_SIZE < scast (size_q (queue_of q av) + size_pkt p) + isz
          then (Waits, av\<lparr>input_stall := 1\<rparr>)
          else
            (let av1 = av\<lparr>input_stall := 0\<rparr> in
             if abort_q (queue_of q av1) = 1 then (Returns (- 2), av1)
             else
               (let a = brk av1;
                    av2 = av1\<lparr>items := (items av1)(a \<mapsto> \<lparr>pkt = p, next_item = None\<rparr>),
                              brk := Suc a\<rparr>;
                    Q = queue_of q av2;
                    Q' = Q\<lparr>last_q := Some a, length_q := length_q Q + 1,
                           size_q := size_add (size_q Q) (size_pkt p) isz\<rparr>
                in if length_q Q = 0
                   then (Returns 0, set_queue q (Q'\<lparr>first_q := Some a\<rparr>) av2)
                   else
                     (case last_q Q of
                        None \<Rightarrow> (Faults, av2)
                      | Some l \<Rightarrow>
                          (case items av2 l of
                             None \<Rightarrow> (Faults, av2)
                           | Some it \<Rightarrow>
                               (Returns 0,
                                set_queue q Q'
                                  (av2\<lparr>items := (items av2)(l \<mapsto> it\<lparr>next_item := Some a\<rparr>)\<rparr>)))))))"

text \<open>
  \<^verbatim>\<open>_packet_queue_read\<close> from the head of its wait loop. The second component is
  what the call stores in \<^verbatim>\<open>*pkt\<close>; \<open>None\<close> when it stores nothing.
\<close>

definition packet_queue_read ::
  "size_t \<Rightarrow> av_ffmpeg \<Rightarrow> queue_id \<Rightarrow> int32 call \<times> AVPacket option \<times> av_ffmpeg" where
  "packet_queue_read isz av q =
     (let Q = queue_of q av in
      if length_q Q = 0 then
        (if input_stall av \<noteq> 0 then (Returns 0, None, av)
         else if abort_q Q = 1 \<or> eof_q Q = 1
         then (Returns (if abort_q Q = 1 then - 2 else - 1), None, av)
         else (Waits, None, av))
      else
        (case first_q Q of
           None \<Rightarrow> (Faults, None, av)
         | Some a \<Rightarrow>
             (case items av a of
                None \<Rightarrow> (Faults, None, av)
              | Some it \<Rightarrow>
                  (Returns 0, Some (pkt it),
                   set_queue q
                     (Q\<lparr>first_q := next_item it, length_q := length_q Q - 1,
                        size_q := size_sub (size_q Q) (size_pkt (pkt it)) isz\<rparr>)
                     (av\<lparr>items := (items av)(a := None)\<rparr>)))))"

text \<open>
  \<^verbatim>\<open>_packet_queue_flush\<close>: the loop \<^verbatim>\<open>while(q->length--)\<close> tests the old value of
  \<^verbatim>\<open>length\<close> and decrements it in either case.
\<close>

function packet_queue_flush_loop :: "av_ffmpeg \<Rightarrow> queue_id \<Rightarrow> int32 call \<times> av_ffmpeg" where
  "packet_queue_flush_loop av q =
     (if length_q (queue_of q av) \<noteq> 0 then
        (case first_q (queue_of q av) of
           None \<Rightarrow> (Faults, set_queue q ((queue_of q av)\<lparr>length_q := length_q (queue_of q av) - 1\<rparr>) av)
         | Some a \<Rightarrow>
             (case items av a of
                None \<Rightarrow> (Faults, set_queue q ((queue_of q av)\<lparr>length_q := length_q (queue_of q av) - 1\<rparr>) av)
              | Some it \<Rightarrow>
                  packet_queue_flush_loop
                    (set_queue q
                       ((queue_of q av)\<lparr>length_q := length_q (queue_of q av) - 1,
                                        first_q := next_item it\<rparr>)
                       (av\<lparr>items := (items av)(a := None)\<rparr>))
                    q))
      else (Returns 0, set_queue q ((queue_of q av)\<lparr>length_q := length_q (queue_of q av) - 1\<rparr>) av))"
  by pat_completeness auto

termination packet_queue_flush_loop
proof (relation "measure (\<lambda>(av, q). unat (length_q (queue_of q av)))")
  show "wf (measure (\<lambda>(av, q). unat (length_q (queue_of q av))))" by simp
next
  fix av :: av_ffmpeg and q :: queue_id and a :: addr and it :: packet_queue_item
  assume "length_q (queue_of q av) \<noteq> 0"
  then have "unat (length_q (queue_of q av) - 1) < unat (length_q (queue_of q av))"
    by (simp add: unat_minus_one unat_gt_0)
  then show "((set_queue q
                 ((queue_of q av)\<lparr>length_q := length_q (queue_of q av) - 1,
                                  first_q := next_item it\<rparr>)
                 (av\<lparr>items := (items av)(a := None)\<rparr>), q), av, q)
             \<in> measure (\<lambda>(av, q). unat (length_q (queue_of q av)))"
    by (cases q) simp_all
qed

declare packet_queue_flush_loop.simps [simp del]

definition packet_queue_flush :: "av_ffmpeg \<Rightarrow> queue_id \<Rightarrow> int32 call \<times> av_ffmpeg" where
  "packet_queue_flush av q = packet_queue_flush_loop av q"

section \<open>The single-slot double buffer\<close>

definition frame_dbuffer_abort :: "'f frame_dbuffer \<Rightarrow> 'f frame_dbuffer" where
  "frame_dbuffer_abort d = d\<lparr>abort_d := 1\<rparr>"

definition frame_dbuffer_back_buffer :: "'f frame_dbuffer \<Rightarrow> 'f call" where
  "frame_dbuffer_back_buffer d =
     (if ready_d d \<noteq> 0 \<and> abort_d d = 0 then Waits else Returns (frame1_d d))"

definition frame_dbuffer_ready ::
  "'f frame_dbuffer \<Rightarrow> int32 \<Rightarrow> unit call \<times> 'f frame_dbuffer" where
  "frame_dbuffer_ready d r =
     (if ready_d d \<noteq> 0 \<and> abort_d d = 0 then (Waits, d)
      else (Returns (), d\<lparr>ready_d := 1, repeat_d := r\<rparr>))"

text \<open>The result \<open>None\<close> is the \<^verbatim>\<open>NULL\<close> that the code returns on abort.\<close>

definition frame_dbuffer_flip ::
  "'f frame_dbuffer \<Rightarrow> 'f option call \<times> 'f frame_dbuffer" where
  "frame_dbuffer_flip d =
     (if ready_d d = 0 \<and> abort_d d = 0 then (Waits, d)
      else if abort_d d \<noteq> 0 then (Returns None, d)
      else
        (let d1 = (if repeat_d d = 0
                   then d\<lparr>frame1_d := frame0_d d, frame0_d := frame1_d d\<rparr>
                   else d)
         in (Returns (Some (frame0_d d1)), d1\<lparr>ready_d := 0\<rparr>)))"

section \<open>The video post-process worker\<close>

text \<open>
  \<^verbatim>\<open>av_rescale_q\<close> belongs to libavutil, not to this repository, so the worker
  takes it as the parameter \<open>rescale_q\<close>. The definition below follows the
  library's documentation: \<open>a * bq / cq\<close> rounded to the nearest integer with
  halves away from zero, and \<^verbatim>\<open>INT64_MIN\<close>, which is the bit pattern of
  \<^verbatim>\<open>AV_NOPTS_VALUE\<close>, for a divisor that is not positive and for a result that
  does not fit. It serves where a concrete rescaler is needed.
\<close>

definition av_rescale_q :: "int64 \<Rightarrow> AVRational \<Rightarrow> AVRational \<Rightarrow> int64" where
  "av_rescale_q a bq cq =
     (let b = sint (num bq) * sint (den cq);
          c = sint (num cq) * sint (den bq);
          m = max (sint a) (- (2 ^ 63 - 1));
          r = (\<bar>m\<bar> * b + c div 2) div c
      in if c \<le> 0 \<or> b < 0 then AV_NOPTS_VALUE
         else if 2 ^ 63 - 1 < r then AV_NOPTS_VALUE
         else if m < 0 then - word_of_int r
         else word_of_int r)"

text \<open>
  Lines 697 to 703, the loop \<^verbatim>\<open>while(pts > 0)\<close>: one publish with \<^verbatim>\<open>repeat = 1\<close>
  per output frame that the source skipped.
\<close>

function repeat_previous :: "int64 \<Rightarrow> av_ffmpeg \<Rightarrow> av_ffmpeg" where
  "repeat_previous p av =
     (if 0 <s p
      then repeat_previous (p - 1)
             (av\<lparr>video_calls := video_calls av @ [Dbuffer_ready 1],
                 video_start_time := video_start_time av + 1\<rparr>)
      else av)"
  by pat_completeness auto

termination repeat_previous
proof (relation "measure (\<lambda>(p, av). nat (sint p))")
  show "wf (measure (\<lambda>(p, av). nat (sint p)))" by simp
next
  fix p :: int64 and av :: av_ffmpeg
  assume "0 <s p"
  then have pos: "0 < sint p" by (simp add: word_sless_alt)
  have up: "sint p < 2 ^ 63" using sint_lt [of p] by simp
  have "sint (p - 1) = signed_take_bit 63 (sint p - 1)"
    by (simp add: sint_word_ariths)
  also have "\<dots> = sint p - 1"
    using pos up by (intro signed_take_bit_int_eq_self) auto
  finally have "sint (p - 1) = sint p - 1" .
  then show "((p - 1, av\<lparr>video_calls := video_calls av @ [Dbuffer_ready 1],
                         video_start_time := video_start_time av + 1\<rparr>), p, av)
             \<in> measure (\<lambda>(p, av). nat (sint p))"
    using pos by simp
qed

declare repeat_previous.simps [simp del]

text \<open>
  Lines 718 to 733: the two products that the worker hands to \<^verbatim>\<open>av_reduce\<close>, which
  reduces them to the pixel aspect ratio of the output frame. The products are
  formed in \<^verbatim>\<open>int\<close> and widened to \<^verbatim>\<open>int64_t\<close> by the call.
\<close>

definition scaled_aspect_ratio :: "AVFrame \<Rightarrow> int32 \<Rightarrow> int32 \<Rightarrow> int64 \<times> int64" where
  "scaled_aspect_ratio frame owidth oheight =
     (let ratio = sample_aspect_ratio frame;
          ratio = (if num ratio = 0 \<or> den ratio = 0 then \<lparr>num = 1, den = 1\<rparr> else ratio)
      in (scast (width frame * num ratio * oheight),
          scast (height frame * den ratio * owidth)))"

text \<open>
  Integer division in C truncates towards zero. It traps when the divisor is 0
  and when the least value of the type is divided by -1.
\<close>

definition div_traps :: "'a::len word \<Rightarrow> 'a word \<Rightarrow> bool" where
  "div_traps a b = (b = 0 \<or> (sint a = - (2 ^ (LENGTH('a) - 1)) \<and> b = - 1))"

definition c_div :: "'a::len word \<Rightarrow> 'a word \<Rightarrow> 'a word" where
  "c_div a b = word_of_int (sgn (sint a) * sgn (sint b) * (\<bar>sint a\<bar> div \<bar>sint b\<bar>))"

text \<open>
  Lines 742 to 753, the timestamp overlay. With \<^verbatim>\<open>conf.timestamp\<close> set the worker
  divides \<^verbatim>\<open>time_base.den\<close> by \<^verbatim>\<open>time_base.num\<close> in \<^verbatim>\<open>int\<close> and the frame's
  timestamp by the quotient in \<^verbatim>\<open>int64_t\<close>, formats the result into a buffer that
  is wide enough for three \<^verbatim>\<open>int\<close>s, and has the text drawn on the output picture.
  The function says whether this faults.
\<close>

definition timestamp_hook_faults :: "av_ffmpeg \<Rightarrow> AVFrame \<Rightarrow> bool" where
  "timestamp_hook_faults av frame =
     (if conf_timestamp av then
        (case video_stream av of
           None \<Rightarrow> True
         | Some vs \<Rightarrow>
             div_traps (den (time_base vs)) (num (time_base vs)) \<or>
             div_traps (best_effort_timestamp frame)
               (scast (c_div (den (time_base vs)) (num (time_base vs)))))
      else False)"

text \<open>
  Lines 756 to 779, the subtitle overlay. With \<^verbatim>\<open>conf.subtitles\<close> or
  \<^verbatim>\<open>conf.txsubtitles\<close> set and text subtitles loaded, the worker divides the
  frame's timestamp by \<^verbatim>\<open>time_base.den / 1000\<close> and copies the subtitle of that
  time into \<^verbatim>\<open>char fmt[256]\<close>, which holds 255 characters and the terminator.
  Bitmap subtitles are looked up without either. The function says whether the
  overlay faults.
\<close>

definition subtitle_hook_faults :: "av_ffmpeg \<Rightarrow> AVFrame \<Rightarrow> bool" where
  "subtitle_hook_faults av frame =
     (if (conf_subtitles av \<or> conf_txsubtitles av) \<and> av_sub_is_text av then
        (case video_stream av of
           None \<Rightarrow> True
         | Some vs \<Rightarrow>
             (let ms = scast (c_div (den (time_base vs)) 1000) in
              div_traps (best_effort_timestamp frame) ms \<or>
              255 < length (av_sub_text av (c_div (best_effort_timestamp frame) ms))))
      else False)"

definition overlay_hooks_fault :: "av_ffmpeg \<Rightarrow> AVFrame \<Rightarrow> bool" where
  "overlay_hooks_fault av frame =
     (timestamp_hook_faults av frame \<or> subtitle_hook_faults av frame)"

text \<open>
  Lines 706 to 784: scale into the back buffer, set its aspect ratio, run the
  logo, timestamp and subtitle overlays, publish with \<^verbatim>\<open>repeat = 0\<close> and count
  the output frame. The overlays draw on the picture in the back buffer and
  report to the teletext service, neither of which is part of the state here;
  the functions they call are not in this file and are taken to return. The
  logo overlay of lines 736 to 739 is one such call and nothing else. What the
  state keeps of the other two is that a fault in them ends the worker before
  the publish.
\<close>

definition video_scaler_output :: "av_ffmpeg \<Rightarrow> AVFrame \<Rightarrow> unit call \<times> av_ffmpeg" where
  "video_scaler_output av frame =
     (let (n, d) = scaled_aspect_ratio frame (out_video_width av) (out_video_height av);
          av1 = av\<lparr>video_calls := video_calls av @ [Sws_scale frame, Av_reduce n d]\<rparr>
      in if overlay_hooks_fault av1 frame then (Faults, av1)
         else (Returns (),
               av1\<lparr>video_calls := video_calls av1 @ [Dbuffer_ready 0],
                   video_start_time := video_start_time av1 + 1\<rparr>))"

text \<open>
  The body of the loop of \<^verbatim>\<open>_video_scaler_thread\<close> for one frame that
  \<^verbatim>\<open>_frame_dbuffer_flip\<close> returned from the inbound buffer.
\<close>

definition video_scaler_frame ::
  "(int64 \<Rightarrow> AVRational \<Rightarrow> AVRational \<Rightarrow> int64) \<Rightarrow> av_ffmpeg \<Rightarrow> AVFrame
     \<Rightarrow> unit call \<times> av_ffmpeg" where
  "video_scaler_frame rescale_q av frame =
     (let p = best_effort_timestamp frame in
      if p \<noteq> AV_NOPTS_VALUE then
        (case video_stream av of
           None \<Rightarrow> (Faults, av)
         | Some vs \<Rightarrow>
             (let p = rescale_q p (time_base vs) (video_time_base av) - video_start_time av in
              if p <s 0 then (Returns (), av)
              else video_scaler_output (repeat_previous p av) frame))
      else video_scaler_output av frame)"

text \<open>
  The whole thread, for the frames that the inbound buffer delivers before it
  aborts: the loop, then \<^verbatim>\<open>_frame_dbuffer_abort\<close> on the outbound buffer.
\<close>

fun video_scaler_frames ::
  "(int64 \<Rightarrow> AVRational \<Rightarrow> AVRational \<Rightarrow> int64) \<Rightarrow> av_ffmpeg \<Rightarrow> AVFrame list
     \<Rightarrow> unit call \<times> av_ffmpeg" where
  "video_scaler_frames rescale_q av [] = (Returns (), av)"
| "video_scaler_frames rescale_q av (f # fs) =
     (case video_scaler_frame rescale_q av f of
        (Returns u, av') \<Rightarrow> video_scaler_frames rescale_q av' fs
      | (Waits, av') \<Rightarrow> (Waits, av')
      | (Faults, av') \<Rightarrow> (Faults, av'))"

definition video_scaler_thread ::
  "(int64 \<Rightarrow> AVRational \<Rightarrow> AVRational \<Rightarrow> int64) \<Rightarrow> av_ffmpeg \<Rightarrow> AVFrame list
     \<Rightarrow> unit call \<times> av_ffmpeg" where
  "video_scaler_thread rescale_q av frames =
     (case video_scaler_frames rescale_q av frames of
        (Returns u, av') \<Rightarrow> (Returns (), av'\<lparr>video_calls := video_calls av' @ [Dbuffer_abort]\<rparr>)
      | (Waits, av') \<Rightarrow> (Waits, av')
      | (Faults, av') \<Rightarrow> (Faults, av'))"


section \<open>The audio post-process worker\<close>

text \<open>
  Lines 1046 to 1065, the loop \<^verbatim>\<open>do ... while(r > 0)\<close>. The resampler is
  libswresample's; the list holds what its successive \<^verbatim>\<open>swr_convert\<close> calls
  return, and the result is \<open>None\<close> when the loop asks for more calls than the
  list answers. \<open>count\<close> input samples are offered, starting \<open>drop_n\<close> samples
  into the frame (the variable \<^verbatim>\<open>drop\<close> of the code).
\<close>

fun audio_resample :: "int32 list \<Rightarrow> int32 \<Rightarrow> int32 \<Rightarrow> av_ffmpeg \<Rightarrow> av_ffmpeg option" where
  "audio_resample [] count drop_n av = None"
| "audio_resample (r # rs) count drop_n av =
     (let av1 = av\<lparr>audio_calls := audio_calls av @
                  [Swr_convert (out_frame_size av) (if count \<noteq> 0 then Some drop_n else None) count]\<rparr>
      in if r = 0 then Some av1
         else
           (let av2 = av1\<lparr>audio_calls := audio_calls av1 @ [Dbuffer_ready 0],
                         audio_start_time := audio_start_time av1 + scast count\<rparr>
            in if 0 <s r then audio_resample rs 0 drop_n av2 else Some av2))"

text \<open>
  The body of the loop of \<^verbatim>\<open>_audio_scaler_thread\<close> for one frame from the
  inbound buffer: lines 995 to 1027 decide what to drop or to pad, then the
  frame goes through the resampler.
\<close>

definition audio_scaler_frame ::
  "(int64 \<Rightarrow> AVRational \<Rightarrow> AVRational \<Rightarrow> int64) \<Rightarrow> av_ffmpeg \<Rightarrow> AVFrame \<Rightarrow> int32 list
     \<Rightarrow> (unit call \<times> av_ffmpeg) option" where
  "audio_scaler_frame rescale_q av frame rs =
     (let p = best_effort_timestamp frame in
      if p \<noteq> AV_NOPTS_VALUE then
        (case audio_stream av of
           None \<Rightarrow> Some (Faults, av)
         | Some ast \<Rightarrow>
             (let p = rescale_q p (time_base ast) (audio_time_base av) - audio_start_time av;
                  next_pts = p + scast (nb_samples frame)
              in if next_pts \<le>s 0 then Some (Returns (), av)
                 else if p <s scast (- allowed_error av)
                 then map_option (Pair (Returns ()))
                        (audio_resample rs (nb_samples frame - ucast (- p)) (ucast (- p)) av)
                 else if scast (allowed_error av) <s p
                 then map_option (Pair (Returns ()))
                        (audio_resample rs (nb_samples frame) 0
                           (av\<lparr>audio_calls := audio_calls av @ [Swr_inject_silence (ucast p)],
                               audio_start_time := audio_start_time av + p\<rparr>))
                 else map_option (Pair (Returns ()))
                        (audio_resample rs (nb_samples frame) 0 av)))
      else map_option (Pair (Returns ())) (audio_resample rs (nb_samples frame) 0 av))"

section \<open>The pull API\<close>

text \<open>
  What \<^verbatim>\<open>kbhit\<close> and \<^verbatim>\<open>getchar\<close> deliver to \<^verbatim>\<open>_av_ffmpeg_read_video\<close>: a space, the
  escape sequences that end in \<^verbatim>\<open>C\<close> and \<^verbatim>\<open>D\<close>, or anything else.
\<close>

datatype key = Key_space | Key_escape_C | Key_escape_D | Key_other

definition AVSEEK_FWD :: int32 where
  "AVSEEK_FWD = 60"

definition AVSEEK_RWD :: int32 where
  "AVSEEK_RWD = - 60"

text \<open>
  The calls read the keyboard, the clock and the outbound double buffer. These
  are arguments here: \<open>k\<close> is the pending key if there is one, \<open>now\<close> is
  \<^verbatim>\<open>time(0)\<close>, \<open>front\<close> is \<^verbatim>\<open>out_video_buffer.frame[0]\<close>, and \<open>flipped\<close> is what
  \<^verbatim>\<open>_frame_dbuffer_flip\<close> returns once it returns. The result is the frame whose
  data the call returns, \<open>None\<close> for \<^verbatim>\<open>NULL\<close>.
\<close>

definition av_ffmpeg_read_video ::
  "av_ffmpeg \<Rightarrow> key option \<Rightarrow> int64 \<Rightarrow> 'f \<Rightarrow> 'f option \<Rightarrow> 'f option call \<times> av_ffmpeg" where
  "av_ffmpeg_read_video av k now front flipped =
     (if video_stream av = None then (Returns None, av)
      else
        (let av1 = (if k = Some Key_space then av\<lparr>paused := paused av XOR 1\<rparr> else av);
             nav = (if k = Some Key_escape_C then AVSEEK_FWD
                    else if k = Some Key_escape_D then AVSEEK_RWD else 0);
             av2 = (if nav = AVSEEK_FWD \<or> nav = AVSEEK_RWD
                    then av1\<lparr>video_start_time := video_start_time av1 + scast nav,
                             audio_start_time := audio_start_time av1 + scast nav\<rparr>
                    else av1)
         in if paused av2 \<noteq> 0 then (Returns (Some front), av2\<lparr>last_paused := now\<rparr>)
            else
              (case flipped of
                 None \<Rightarrow>
                   if now - last_paused av2 <s 5 then (Faults, av2)
                   else (Returns None, av2\<lparr>video_eof := 1\<rparr>)
               | Some f \<Rightarrow> (Returns (Some f), av2))))"

definition av_ffmpeg_read_audio ::
  "av_ffmpeg \<Rightarrow> 'f option \<Rightarrow> 'f option call \<times> av_ffmpeg" where
  "av_ffmpeg_read_audio av flipped =
     (if audio_stream av = None \<or> paused av \<noteq> 0 then (Returns None, av)
      else
        (case flipped of
           None \<Rightarrow> (Returns None, av\<lparr>audio_eof := 1\<rparr>)
         | Some f \<Rightarrow> (Returns (Some f), av)))"

definition av_ffmpeg_eof :: "av_ffmpeg \<Rightarrow> int32" where
  "av_ffmpeg_eof av =
     (if (video_stream av \<noteq> None \<and> video_eof av = 0) \<or>
         (audio_stream av \<noteq> None \<and> audio_eof av = 0)
      then 0 else 1)"

section \<open>The contents of a queue\<close>

text \<open>
  The items of a queue form a chain in memory: \<open>qpath h p ns\<close> holds when the
  pointer \<open>p\<close> leads through the addresses of \<open>ns\<close> in order and each item holds
  the packet listed with its address. \<open>queue_items\<close> reads the packets of the
  first \<open>n\<close> items of a chain, and \<open>queue_contents\<close> those of the \<^verbatim>\<open>length\<close> items
  that a queue says it holds. \<open>qbytes\<close> is what \<^verbatim>\<open>size\<close> adds up for a list of
  packets.
\<close>

fun qpath :: "(addr \<rightharpoonup> packet_queue_item) \<Rightarrow> addr option \<Rightarrow> (addr \<times> AVPacket) list \<Rightarrow> bool" where
  "qpath h p [] = True"
| "qpath h p ((a, x) # ns) =
     (p = Some a \<and>
      (case h a of None \<Rightarrow> False | Some it \<Rightarrow> pkt it = x \<and> qpath h (next_item it) ns))"

definition qbytes :: "size_t \<Rightarrow> AVPacket list \<Rightarrow> int" where
  "qbytes isz xs = (\<Sum>x\<leftarrow>xs. sint (size_pkt x) + uint isz)"

text \<open>
  The state of a queue that holds the items \<open>ns\<close>, first to last, and has not
  been aborted.
\<close>

definition queue_inv :: "size_t \<Rightarrow> av_ffmpeg \<Rightarrow> queue_id \<Rightarrow> (addr \<times> AVPacket) list \<Rightarrow> bool" where
  "queue_inv isz av q ns =
     (qpath (items av) (first_q (queue_of q av)) ns \<and>
      distinct (map fst ns) \<and>
      (ns \<noteq> [] \<longrightarrow> last_q (queue_of q av) = Some (fst (last ns))) \<and>
      (\<forall>a \<in> fst ` set ns. a < brk av) \<and>
      length_q (queue_of q av) = of_nat (length ns) \<and>
      sint (size_q (queue_of q av)) = qbytes isz (map snd ns) \<and>
      qbytes isz (map snd ns) \<le> 15728640 \<and>
      (\<forall>x \<in> snd ` set ns. 0 \<le> sint (size_pkt x)) \<and>
      abort_q (queue_of q av) = 0)"

fun queue_items :: "(addr \<rightharpoonup> packet_queue_item) \<Rightarrow> addr option \<Rightarrow> nat \<Rightarrow> AVPacket list" where
  "queue_items h p 0 = []"
| "queue_items h p (Suc n) =
     (case p of
        None \<Rightarrow> []
      | Some a \<Rightarrow> (case h a of None \<Rightarrow> [] | Some it \<Rightarrow> pkt it # queue_items h (next_item it) n))"

definition queue_contents :: "av_ffmpeg \<Rightarrow> queue_id \<Rightarrow> AVPacket list" where
  "queue_contents av q =
     queue_items (items av) (first_q (queue_of q av)) (unat (length_q (queue_of q av)))"

text \<open>
  A run of attempts on one queue, each a call of \<^verbatim>\<open>_packet_queue_write\<close> or of
  \<^verbatim>\<open>_packet_queue_read\<close> taken up to its return or to its wait. The result lists
  the packets of the writes that returned 0 and the packets that the reads
  stored, both in call order; it is \<open>None\<close> when a call faults.
\<close>

datatype queue_op = Write "AVPacket option" | Read

fun run_queue_ops ::
  "size_t \<Rightarrow> queue_id \<Rightarrow> av_ffmpeg \<Rightarrow> queue_op list
     \<Rightarrow> (av_ffmpeg \<times> AVPacket list \<times> AVPacket list) option" where
  "run_queue_ops isz q av [] = Some (av, [], [])"
| "run_queue_ops isz q av (Write po # ops) =
     (case packet_queue_write isz av q po of
        (Faults, av') \<Rightarrow> None
      | (Waits, av') \<Rightarrow> run_queue_ops isz q av' ops
      | (Returns r, av') \<Rightarrow>
          map_option
            (\<lambda>(av'', w, g).
               (av'', (case po of Some p \<Rightarrow> if r = 0 then [p] else [] | None \<Rightarrow> []) @ w, g))
            (run_queue_ops isz q av' ops))"
| "run_queue_ops isz q av (Read # ops) =
     (case packet_queue_read isz av q of
        (Faults, po, av') \<Rightarrow> None
      | (Waits, po, av') \<Rightarrow> run_queue_ops isz q av' ops
      | (Returns r, po, av') \<Rightarrow>
          map_option
            (\<lambda>(av'', w, g). (av'', w, (case po of Some p \<Rightarrow> [p] | None \<Rightarrow> []) @ g))
            (run_queue_ops isz q av' ops))"

section \<open>The operations on a running pipeline\<close>

text \<open>
  One call of the pull API, one frame through a post-process worker, or one call
  on a packet queue, and the state that it leaves. \<open>eof_fields\<close> are the fields
  that \<^verbatim>\<open>_av_ffmpeg_eof\<close> reads.
\<close>

datatype 'f av_op =
    Op_read_video "key option" int64 'f "'f option"
  | Op_read_audio "'f option"
  | Op_video_frame AVFrame
  | Op_audio_frame AVFrame "int32 list"
  | Op_queue_write queue_id "AVPacket option"
  | Op_queue_read queue_id
  | Op_queue_abort queue_id
  | Op_queue_flush queue_id

fun av_step ::
  "size_t \<Rightarrow> (int64 \<Rightarrow> AVRational \<Rightarrow> AVRational \<Rightarrow> int64) \<Rightarrow> av_ffmpeg \<Rightarrow> 'f av_op \<Rightarrow> av_ffmpeg" where
  "av_step isz rescale_q av (Op_read_video k now front flipped) =
     snd (av_ffmpeg_read_video av k now front flipped)"
| "av_step isz rescale_q av (Op_read_audio flipped) = snd (av_ffmpeg_read_audio av flipped)"
| "av_step isz rescale_q av (Op_video_frame frame) = snd (video_scaler_frame rescale_q av frame)"
| "av_step isz rescale_q av (Op_audio_frame frame rs) =
     (case audio_scaler_frame rescale_q av frame rs of None \<Rightarrow> av | Some (r, av') \<Rightarrow> av')"
| "av_step isz rescale_q av (Op_queue_write q pkt_opt) = snd (packet_queue_write isz av q pkt_opt)"
| "av_step isz rescale_q av (Op_queue_read q) = snd (snd (packet_queue_read isz av q))"
| "av_step isz rescale_q av (Op_queue_abort q) = packet_queue_abort av q"
| "av_step isz rescale_q av (Op_queue_flush q) = snd (packet_queue_flush av q)"

definition eof_fields :: "av_ffmpeg \<Rightarrow> AVStream option \<times> int32 \<times> AVStream option \<times> int32" where
  "eof_fields av = (video_stream av, video_eof av, audio_stream av, audio_eof av)"

text \<open>
  The abort flags of the two queues, and the states in which each of them is 0
  or 1.
\<close>

definition abort_fields :: "av_ffmpeg \<Rightarrow> int32 \<times> int32" where
  "abort_fields av = (abort_q (video_queue av), abort_q (audio_queue av))"

definition abort_flags_ok :: "av_ffmpeg \<Rightarrow> bool" where
  "abort_flags_ok av =
     ((abort_q (video_queue av) = 0 \<or> abort_q (video_queue av) = 1) \<and>
      (abort_q (audio_queue av) = 0 \<or> abort_q (audio_queue av) = 1))"

section \<open>Concrete states\<close>

text \<open>
  The struct as \<^verbatim>\<open>calloc\<close> returns it in the open function, every field zero, and
  an opened video stream whose time base is the output time base, with a
  720 by 576 output picture.
\<close>

definition packet_queue_zero :: packet_queue where
  "packet_queue_zero =
     \<lparr>length_q = 0, size_q = 0, eof_q = 0, abort_q = 0, first_q = None, last_q = None\<rparr>"

definition av_calloc :: av_ffmpeg where
  "av_calloc =
     \<lparr>paused = 0, last_paused = 0,
      video_time_base = \<lparr>num = 0, den = 0\<rparr>, video_start_time = 0,
      video_queue = packet_queue_zero, video_stream = None, video_eof = 0,
      out_video_width = 0, out_video_height = 0,
      audio_time_base = \<lparr>num = 0, den = 0\<rparr>, audio_start_time = 0,
      audio_queue = packet_queue_zero, audio_stream = None, audio_eof = 0,
      out_frame_size = 0, allowed_error = 0,
      subtitle_stream = None, subtitle_eof = 0, input_stall = 0,
      items = Map.empty, brk = 0, video_calls = [], audio_calls = [],
      conf_timestamp = False, conf_subtitles = False, conf_txsubtitles = False,
      av_sub_is_text = False, av_sub_text = (\<lambda>t. [])\<rparr>"

definition stream_1to1 :: AVStream where
  "stream_1to1 = \<lparr>index = 0, time_base = \<lparr>num = 1, den = 1\<rparr>\<rparr>"

definition av_video_1to1 :: av_ffmpeg where
  "av_video_1to1 =
     av_calloc\<lparr>video_stream := Some stream_1to1,
               video_time_base := \<lparr>num = 1, den = 1\<rparr>,
               out_video_width := 720, out_video_height := 576\<rparr>"


text \<open>A decoded 720 by 576 picture with square pixels and the timestamp \<open>t\<close>.\<close>

definition picture :: "int64 \<Rightarrow> AVFrame" where
  "picture t =
     \<lparr>best_effort_timestamp = t, sample_aspect_ratio = \<lparr>num = 1, den = 1\<rparr>,
      width = 720, height = 576, nb_samples = 0\<rparr>"

text \<open>A packet of \<open>s\<close> bytes, told apart from others by \<open>n\<close>.\<close>

definition packet :: "nat \<Rightarrow> int32 \<Rightarrow> AVPacket" where
  "packet n s = \<lparr>pts = of_nat n, data = n, size_pkt = s, stream_index = 0\<rparr>"

text \<open>The struct after the open function has initialised both queues.\<close>

definition av_queues :: av_ffmpeg where
  "av_queues = packet_queue_init (packet_queue_init av_calloc Video_queue) Audio_queue"



definition dbuffer_example :: "nat frame_dbuffer" where
  "dbuffer_example = \<lparr>ready_d = 1, repeat_d = 0, abort_d = 0, frame0_d = 10, frame1_d = 20\<rparr>"

section \<open>Video drift correction\<close>


text \<open>The overlays read the configuration and the stream only.\<close>

lemma overlay_hooks_fault_updates [simp]:
  "overlay_hooks_fault (av\<lparr>video_calls := c\<rparr>) f = overlay_hooks_fault av f"
  "overlay_hooks_fault (av\<lparr>video_start_time := t\<rparr>) f = overlay_hooks_fault av f"
  by (simp_all add: overlay_hooks_fault_def timestamp_hook_faults_def subtitle_hook_faults_def
      Let_def split: option.splits)

lemma overlay_hooks_fault_repeat_previous [simp]:
  "overlay_hooks_fault (repeat_previous p av) f = overlay_hooks_fault av f"
  by (induction p av rule: repeat_previous.induct) (subst repeat_previous.simps, simp)


text \<open>
  With the timestamp overlay off, and subtitles off or of the bitmap kind, no
  overlay faults.
\<close>

lemma overlay_hooks_fault_off:
  assumes "\<not> conf_timestamp av"
    and "(\<not> conf_subtitles av \<and> \<not> conf_txsubtitles av) \<or> \<not> av_sub_is_text av"
  shows "\<not> overlay_hooks_fault av frame"
  using assms
  by (auto simp: overlay_hooks_fault_def timestamp_hook_faults_def subtitle_hook_faults_def)

text \<open>
  Text subtitles with a time base whose denominator is below 1000 make the
  divisor of line 762 zero, for every frame. The worker then ends before it
  publishes the frame; the second lemma runs the thread on such a stream.
\<close>

lemma text_subtitles_trap:
  assumes "conf_subtitles av \<or> conf_txsubtitles av" and "av_sub_is_text av"
    and "video_stream av = Some vs"
    and "- 1000 <s den (time_base vs)" and "den (time_base vs) <s 1000"
  shows "subtitle_hook_faults av frame"
proof -
  have "\<bar>sint (den (time_base vs))\<bar> < 1000"
    using assms(4,5) by (simp add: word_sless_alt)
  then have "c_div (den (time_base vs)) 1000 = 0"
    by (simp add: c_div_def)
  then show ?thesis
    using assms(1,2,3) by (simp add: subtitle_hook_faults_def div_traps_def)
qed

lemma text_subtitles_trap_1to1:
  "video_scaler_thread av_rescale_q (av_video_1to1\<lparr>conf_subtitles := True, av_sub_is_text := True\<rparr>)
       [picture 0, picture 1, picture 2]
     = (Faults,
        av_video_1to1\<lparr>conf_subtitles := True, av_sub_is_text := True,
                      video_calls := [Sws_scale (picture 0), Av_reduce 414720 414720]\<rparr>)"
  by (simp add: video_scaler_thread_def video_scaler_frame_def video_scaler_output_def
      overlay_hooks_fault_def timestamp_hook_faults_def subtitle_hook_faults_def
      div_traps_def c_div_def scaled_aspect_ratio_def Let_def split_def AV_NOPTS_VALUE_def
      word_sless_alt av_rescale_q_def repeat_previous.simps
      av_video_1to1_def av_calloc_def picture_def stream_1to1_def)





section \<open>The aspect ratio of the output picture\<close>

text \<open>
  Claim C9 as the specification states it: every frame whose sample aspect ratio
  has a numerator or a denominator that is not positive gets the ratio 1:1. It
  fails for the ratio \<open>-1:1\<close>: the numerator is negative, and the products handed
  to \<^verbatim>\<open>av_reduce\<close> are those of \<open>-1:1\<close>, not those of 1:1.
\<close>

theorem negative_aspect_ratio_counterexample:
  "sint (num (sample_aspect_ratio
       ((picture 0)\<lparr>sample_aspect_ratio := \<lparr>num = - 1, den = 1\<rparr>\<rparr>))) \<le> 0
   \<and> scaled_aspect_ratio ((picture 0)\<lparr>sample_aspect_ratio := \<lparr>num = - 1, den = 1\<rparr>\<rparr>) 720 576
       = (- 414720, 414720)
   \<and> scaled_aspect_ratio ((picture 0)\<lparr>sample_aspect_ratio := \<lparr>num = 1, den = 1\<rparr>\<rparr>) 720 576
       = (414720, 414720)"
  by (simp add: scaled_aspect_ratio_def picture_def Let_def)

text \<open>
  Claim C9, amended. For each picture the worker hands the two products to
  \<^verbatim>\<open>av_reduce\<close> as its aspect ratio, and publishes it unless an overlay faults. Where the numerator or the denominator of the source ratio
  is zero, the products are those of the ratio 1:1; where both are different
  from zero, also negative, they are those of the source ratio.
\<close>

theorem zero_aspect_ratio_fallback:
  "video_calls (snd (video_scaler_output av frame)) =
     video_calls av @
       [Sws_scale frame,
        Av_reduce
          (fst (scaled_aspect_ratio frame (out_video_width av) (out_video_height av)))
          (snd (scaled_aspect_ratio frame (out_video_width av) (out_video_height av)))] @
       (if overlay_hooks_fault av frame then [] else [Dbuffer_ready 0])
   \<and> (num (sample_aspect_ratio frame) = 0 \<or> den (sample_aspect_ratio frame) = 0 \<longrightarrow>
        scaled_aspect_ratio frame ow oh =
          (scast (width frame * 1 * oh), scast (height frame * 1 * ow)))
   \<and> (num (sample_aspect_ratio frame) \<noteq> 0 \<and> den (sample_aspect_ratio frame) \<noteq> 0 \<longrightarrow>
        scaled_aspect_ratio frame ow oh =
          (scast (width frame * num (sample_aspect_ratio frame) * oh),
           scast (height frame * den (sample_aspect_ratio frame) * ow)))"
  by (simp add: video_scaler_output_def scaled_aspect_ratio_def Let_def split_def)

theorem zero_aspect_ratio_fallback_witness:
  "scaled_aspect_ratio ((picture 0)\<lparr>sample_aspect_ratio := \<lparr>num = 0, den = 1\<rparr>\<rparr>) 720 576
     = (414720, 414720)
   \<and> scaled_aspect_ratio ((picture 0)\<lparr>sample_aspect_ratio := \<lparr>num = 16, den = 0\<rparr>\<rparr>) 720 576
     = (414720, 414720)
   \<and> scaled_aspect_ratio ((picture 0)\<lparr>sample_aspect_ratio := \<lparr>num = - 16, den = 15\<rparr>\<rparr>) 720 576
     = (- 6635520, 6220800)"
  using zero_aspect_ratio_fallback
      [of av_video_1to1 "(picture 0)\<lparr>sample_aspect_ratio := \<lparr>num = 0, den = 1\<rparr>\<rparr>" 720 576]
    zero_aspect_ratio_fallback
      [of av_video_1to1 "(picture 0)\<lparr>sample_aspect_ratio := \<lparr>num = 16, den = 0\<rparr>\<rparr>" 720 576]
    zero_aspect_ratio_fallback
      [of av_video_1to1 "(picture 0)\<lparr>sample_aspect_ratio := \<lparr>num = - 16, den = 15\<rparr>\<rparr>" 720 576]
  by (simp add: picture_def)

section \<open>Repeat publishes and the swap of the double buffer\<close>

text \<open>
  Claim C7. A publish with \<^verbatim>\<open>repeat\<close> different from 0 that returns is followed
  by a take that leaves both slots where they were, and that returns the front
  slot unless the buffer was aborted. So after a take, a repeat publish and a
  second take, the second take returns the frame of the first. In general a take
  exchanges the two slots when it returns a frame and \<^verbatim>\<open>repeat\<close> is 0, and
  leaves them alone in every other case.
\<close>

theorem repeat_publish_keeps_front:
  fixes d0 d :: "'f frame_dbuffer"
  assumes "r \<noteq> 0"
  shows "(\<forall>d1. frame_dbuffer_ready d r = (Returns (), d1) \<longrightarrow>
            frame0_d (snd (frame_dbuffer_flip d1)) = frame0_d d \<and>
            frame1_d (snd (frame_dbuffer_flip d1)) = frame1_d d \<and>
            (fst (frame_dbuffer_flip d1) = Returns (Some (frame0_d d)) \<or>
             fst (frame_dbuffer_flip d1) = Returns None \<and> abort_d d \<noteq> 0))
       \<and> (\<forall>f1 d1 d2 f2 d3.
            frame_dbuffer_flip d0 = (Returns (Some f1), d1) \<and>
            frame_dbuffer_ready d1 r = (Returns (), d2) \<and>
            frame_dbuffer_flip d2 = (Returns (Some f2), d3) \<longrightarrow>
            f2 = f1 \<and> frame0_d d3 = frame0_d d1 \<and> frame1_d d3 = frame1_d d1)
       \<and> (frame0_d (snd (frame_dbuffer_flip d)), frame1_d (snd (frame_dbuffer_flip d))) =
           (if (\<exists>f. fst (frame_dbuffer_flip d) = Returns (Some f)) \<and> repeat_d d = 0
            then (frame1_d d, frame0_d d) else (frame0_d d, frame1_d d))"
  using assms
  by (auto simp: frame_dbuffer_flip_def frame_dbuffer_ready_def Let_def split: if_splits)

theorem repeat_publish_keeps_front_witness:
  "fst (frame_dbuffer_flip dbuffer_example) = Returns (Some 20)
   \<and> fst (frame_dbuffer_flip (snd (frame_dbuffer_ready (snd (frame_dbuffer_flip dbuffer_example)) 1)))
       = Returns (Some 20)
   \<and> frame0_d (snd (frame_dbuffer_flip
       (snd (frame_dbuffer_ready (snd (frame_dbuffer_flip dbuffer_example)) 1)))) = 20
   \<and> frame1_d (snd (frame_dbuffer_flip
       (snd (frame_dbuffer_ready (snd (frame_dbuffer_flip dbuffer_example)) 1)))) = 10"
  using repeat_publish_keeps_front [of 1 "snd (frame_dbuffer_flip dbuffer_example)" dbuffer_example]
  by (simp add: dbuffer_example_def frame_dbuffer_flip_def frame_dbuffer_ready_def Let_def)

section \<open>Arithmetic of the size field\<close>

lemma ucast_of_int_32: "(ucast (word_of_int k :: size_t) :: int32) = word_of_int k"
  by (rule ucast_down_wi) (simp add: is_down)

lemma uint_MAX: "uint MAX_QUEUE_SIZE = 15728640"
  by (simp add: MAX_QUEUE_SIZE_def)

lemma capacity_int:
  fixes S P I :: int
  assumes "0 \<le> S" "S \<le> 15728640" "0 \<le> P" "P < 2147483648" "0 \<le> I" "I \<le> 15728640"
  shows "(15728640 < (signed_take_bit 31 (S + P) + I) mod 18446744073709551616)
           = (15728640 < S + P + I)"
proof (cases "S + P < 2147483648")
  case True
  then have e: "signed_take_bit 31 (S + P) = S + P"
    using assms by (simp add: signed_take_bit_int_eq_self)
  have "0 \<le> S + P + I" "S + P + I < 18446744073709551616"
    using assms True by simp_all
  then have "(S + P + I) mod 18446744073709551616 = S + P + I"
    by (rule mod_pos_pos_trivial)
  then show ?thesis using e by simp
next
  case False
  define k where "k = S + P"
  have k: "2147483648 \<le> k" "k < 2163212289" using False assms by (simp_all add: k_def)
  have "0 \<le> k - 2147483648" "k - 2147483648 < 4294967296" using k by simp_all
  then have "(k - 2147483648) mod 4294967296 = k - 2147483648"
    by (rule mod_pos_pos_trivial)
  moreover have "(k + 2147483648) mod 4294967296 = (k - 2147483648) mod 4294967296"
  proof -
    have "(k - 2147483648 + 4294967296) mod 4294967296 = (k - 2147483648) mod 4294967296"
      by (rule mod_add_self2)
    moreover have "k + 2147483648 = k - 2147483648 + 4294967296" by simp
    ultimately show ?thesis by (simp only:)
  qed
  ultimately have e: "signed_take_bit 31 k = k - 4294967296"
    by (simp add: signed_take_bit_eq_take_bit_shift take_bit_eq_mod)
  define j where "j = k - 4294967296 + I"
  have j: "- 2147483648 \<le> j" "j < 0" using k assms by (simp_all add: j_def)
  have jb: "0 \<le> j + 18446744073709551616" "j + 18446744073709551616 < 18446744073709551616"
    using j by simp_all
  have "j mod 18446744073709551616 = (j + 18446744073709551616) mod 18446744073709551616"
    by (simp only: mod_add_self2)
  also have "\<dots> = j + 18446744073709551616"
    using jb by (rule mod_pos_pos_trivial)
  finally have m: "j mod 18446744073709551616 = j + 18446744073709551616" .
  have "signed_take_bit 31 (S + P) + I = j"
    using e by (simp only: j_def k_def)
  then have "(signed_take_bit 31 (S + P) + I) mod 18446744073709551616
      = j + 18446744073709551616"
    using m by (simp only:)
  moreover have "15728640 < S + P + I" using k assms by (simp add: k_def)
  moreover have "15728640 < j + 18446744073709551616" using j by simp
  ultimately show ?thesis by (simp only:)
qed

lemma capacity_check:
  fixes s ps :: int32 and isz :: size_t
  assumes S: "0 \<le> sint s" "sint s \<le> 15728640"
    and P: "0 \<le> sint ps"
    and I: "uint isz \<le> 15728640"
  shows "(MAX_QUEUE_SIZE < scast (s + ps) + isz) = (15728640 < sint s + sint ps + uint isz)"
proof -
  have Pu: "sint ps < 2147483648" using sint_lt [of ps] by simp
  have "(scast (s + ps) :: size_t) + isz = word_of_int (sint (s + ps)) + word_of_int (uint isz)"
    by (simp only: scast_eq word_of_int_uint)
  also have "\<dots> = word_of_int (sint (s + ps) + uint isz)" by simp
  finally have u: "uint ((scast (s + ps) :: size_t) + isz)
      = (sint (s + ps) + uint isz) mod 18446744073709551616"
    by (simp only: uint_word_of_int) simp
  have a: "sint (s + ps) = signed_take_bit 31 (sint s + sint ps)"
    by (simp add: sint_word_ariths)
  show ?thesis
    unfolding word_less_def uint_MAX u a
    by (rule capacity_int [OF S P Pu uint_ge_0 I])
qed

lemma size_add_int: "size_add s ps isz = word_of_int (sint s + sint ps + uint isz)"
proof -
  have "(scast s :: size_t) + (scast ps + isz)
          = word_of_int (sint s) + (word_of_int (sint ps) + word_of_int (uint isz))"
    by (simp only: scast_eq word_of_int_uint)
  also have "\<dots> = word_of_int (sint s + sint ps + uint isz)" by simp
  finally show ?thesis by (simp only: size_add_def ucast_of_int_32)
qed

lemma size_sub_int: "size_sub s ps isz = word_of_int (sint s - (sint ps + uint isz))"
proof -
  have "(scast s :: size_t) - (scast ps + isz)
          = word_of_int (sint s) - (word_of_int (sint ps) + word_of_int (uint isz))"
    by (simp only: scast_eq word_of_int_uint)
  also have "\<dots> = word_of_int (sint s - (sint ps + uint isz))" by simp
  finally show ?thesis by (simp only: size_sub_def ucast_of_int_32)
qed

lemma sint_of_int_32:
  "- 2147483648 \<le> k \<Longrightarrow> k < 2147483648 \<Longrightarrow> sint (word_of_int k :: int32) = k"
  by (simp add: sint_sbintrunc' signed_take_bit_int_eq_self)

section \<open>Chains of queue items\<close>

lemma queue_of_set_queue [simp]: "queue_of q (set_queue q Q av) = Q"
  by (cases q) simp_all

lemma set_queue_fields [simp]:
  "items (set_queue q Q av) = items av"
  "brk (set_queue q Q av) = brk av"
  "input_stall (set_queue q Q av) = input_stall av"
  by (cases q; simp)+

lemma queue_of_updates [simp]:
  "queue_of q (av\<lparr>items := h\<rparr>) = queue_of q av"
  "queue_of q (av\<lparr>brk := b\<rparr>) = queue_of q av"
  "queue_of q (av\<lparr>input_stall := i\<rparr>) = queue_of q av"
  by (cases q; simp)+

lemma qpath_upd_other: "a \<notin> fst ` set ns \<Longrightarrow> qpath (h(a := v)) p ns = qpath h p ns"
  by (induction ns arbitrary: p) (auto split: option.splits)

lemma qpath_snoc:
  assumes "qpath h p ns" and "ns \<noteq> []" and "distinct (map fst ns)"
    and "a \<notin> fst ` set ns" and "h (fst (last ns)) = Some it"
  shows "qpath (h(fst (last ns) \<mapsto> it\<lparr>next_item := Some a\<rparr>, a \<mapsto> \<lparr>pkt = x, next_item = None\<rparr>))
           p (ns @ [(a, x)])"
  using assms
proof (induction ns arbitrary: p)
  case Nil
  then show ?case by simp
next
  case (Cons n ns)
  obtain b y where n: "n = (b, y)" by (cases n)
  show ?case
  proof (cases "ns = []")
    case True
    with Cons.prems n show ?thesis by (auto split: option.splits)
  next
    case False
    with Cons.prems n have ne: "b \<noteq> fst (last ns)" "b \<noteq> a"
      by (auto simp: image_iff)
    from Cons.prems n False obtain it' where it': "h b = Some it'" "pkt it' = y" "p = Some b"
      "qpath h (next_item it') ns"
      by (auto split: option.splits)
    have d: "distinct (map fst ns)" "a \<notin> fst ` set ns" "h (fst (last ns)) = Some it"
      using Cons.prems False by auto
    define H where
      "H = h(fst (last ns) \<mapsto> it\<lparr>next_item := Some a\<rparr>, a \<mapsto> \<lparr>pkt = x, next_item = None\<rparr>)"
    have Hb: "H b = Some it'" using ne it'(1) by (simp add: H_def)
    have "qpath H (next_item it') (ns @ [(a, x)])"
      unfolding H_def by (rule Cons.IH [OF it'(4) False d])
    then have "qpath H p ((b, y) # ns @ [(a, x)])"
      using Hb it' by simp
    moreover have "last (n # ns) = last ns" using False by simp
    ultimately show ?thesis unfolding H_def n by (simp only: append_Cons)
  qed
qed

lemma queue_items_qpath: "qpath h p ns \<Longrightarrow> queue_items h p (length ns) = map snd ns"
  by (induction ns arbitrary: p) (auto split: option.splits)

lemma qbytes_simps [simp]:
  "qbytes isz [] = 0"
  "qbytes isz (x # xs) = sint (size_pkt x) + uint isz + qbytes isz xs"
  "qbytes isz (xs @ ys) = qbytes isz xs + qbytes isz ys"
  by (simp_all add: qbytes_def)

lemma length_le_qbytes:
  "0 < uint isz \<Longrightarrow> \<forall>x \<in> set xs. 0 \<le> sint (size_pkt x) \<Longrightarrow> int (length xs) \<le> qbytes isz xs"
  by (induction xs) auto

lemma unat_of_nat_length:
  "n \<le> 15728640 \<Longrightarrow> unat (of_nat n :: int32) = n"
  by (simp add: unat_of_nat)

lemma of_nat_length_eq_0:
  "n \<le> 15728640 \<Longrightarrow> ((of_nat n :: int32) = 0) = (n = 0)"
  using unat_of_nat_length [of n] by auto

lemma qpath_mem:
  "qpath h p ns \<Longrightarrow> (a, x) \<in> set ns \<Longrightarrow> \<exists>it. h a = Some it \<and> pkt it = x"
  by (induction ns arbitrary: p) (auto split: option.splits)

lemma queue_inv_stall [simp]:
  "queue_inv isz (av\<lparr>input_stall := i\<rparr>) q ns = queue_inv isz av q ns"
  by (simp add: queue_inv_def)

lemma queue_inv_bytes:
  assumes "queue_inv isz av q ns" and "0 < uint isz"
  shows "sint (size_q (queue_of q av)) = qbytes isz (map snd ns)"
    and "int (length ns) \<le> qbytes isz (map snd ns)"
    and "qbytes isz (map snd ns) \<le> 15728640"
    and "length ns \<le> 15728640"
proof -
  show a: "sint (size_q (queue_of q av)) = qbytes isz (map snd ns)"
    and b: "qbytes isz (map snd ns) \<le> 15728640"
    using assms(1) by (simp_all add: queue_inv_def)
  have "\<forall>x \<in> set (map snd ns). 0 \<le> sint (size_pkt x)"
    using assms(1) by (simp add: queue_inv_def)
  from length_le_qbytes [OF assms(2) this]
  show c: "int (length ns) \<le> qbytes isz (map snd ns)" by simp
  show "length ns \<le> 15728640" using b c by linarith
qed

lemma write_inv:
  assumes inv: "queue_inv isz av q ns"
    and isz: "0 < uint isz" "uint isz \<le> 15728640"
    and p: "0 \<le> sint (size_pkt p)"
  shows "(15728640 < qbytes isz (map snd ns) + sint (size_pkt p) + uint isz \<and>
          packet_queue_write isz av q (Some p) = (Waits, av\<lparr>input_stall := 1\<rparr>))
       \<or> (qbytes isz (map snd ns) + sint (size_pkt p) + uint isz \<le> 15728640 \<and>
          (\<exists>av'. packet_queue_write isz av q (Some p) = (Returns 0, av') \<and>
                 queue_inv isz av' q (ns @ [(brk av, p)])))"
proof -
  let ?Q = "queue_of q av"
  let ?B = "qbytes isz (map snd ns)"
  note B = queue_inv_bytes [OF inv isz(1)]
  have ab: "abort_q ?Q = 0" using inv by (simp add: queue_inv_def)
  have B0: "0 \<le> ?B" using B(2) by linarith
  have chk: "(MAX_QUEUE_SIZE < scast (size_q ?Q + size_pkt p) + isz)
               = (15728640 < ?B + sint (size_pkt p) + uint isz)"
    using capacity_check [of "size_q ?Q" "size_pkt p" isz] B B0 p isz by simp
  show ?thesis
  proof (cases "15728640 < ?B + sint (size_pkt p) + uint isz")
    case True
    then show ?thesis using chk ab by (simp add: packet_queue_write_def)
  next
    case False
    have sz: "sint (size_add (size_q ?Q) (size_pkt p) isz) = ?B + sint (size_pkt p) + uint isz"
      unfolding size_add_int B(1)
      using False B0 p isz by (intro sint_of_int_32) linarith+
    define a where "a = brk av"
    have fresh: "a \<notin> fst ` set ns" using inv by (auto simp: queue_inv_def a_def)
    show ?thesis
    proof (cases "ns = []")
      case True
      then have len: "length_q ?Q = 0" using inv by (simp add: queue_inv_def)
      have w: "packet_queue_write isz av q (Some p) =
        (Returns 0, set_queue q
           (?Q\<lparr>last_q := Some a, length_q := length_q ?Q + 1,
                size_q := size_add (size_q ?Q) (size_pkt p) isz, first_q := Some a\<rparr>)
           (av\<lparr>input_stall := 0, items := (items av)(a \<mapsto> \<lparr>pkt = p, next_item = None\<rparr>),
               brk := Suc a\<rparr>))"
        using chk False ab len by (simp add: packet_queue_write_def Let_def a_def)
      have "queue_inv isz (snd (packet_queue_write isz av q (Some p))) q (ns @ [(brk av, p)])"
        unfolding w using True sz p False len ab
        by (simp add: queue_inv_def a_def)
      then show ?thesis using False w by auto
    next
      case ne: False
      then have len: "length_q ?Q \<noteq> 0"
        using inv B(4) by (simp add: queue_inv_def of_nat_length_eq_0)
      define l where "l = fst (last ns)"
      have lq: "last_q ?Q = Some l" using inv ne by (simp add: queue_inv_def l_def)
      have "(l, snd (last ns)) \<in> set ns" using ne by (simp add: l_def)
      moreover have qp: "qpath (items av) (first_q ?Q) ns" using inv by (simp add: queue_inv_def)
      ultimately obtain it where it: "items av l = Some it"
        using qpath_mem by blast
      have la: "l \<noteq> a" using fresh ne by (auto simp: l_def)
      have w: "packet_queue_write isz av q (Some p) =
        (Returns 0, set_queue q
           (?Q\<lparr>last_q := Some a, length_q := length_q ?Q + 1,
                size_q := size_add (size_q ?Q) (size_pkt p) isz\<rparr>)
           (av\<lparr>input_stall := 0, brk := Suc a,
               items := (items av)(a \<mapsto> \<lparr>pkt = p, next_item = None\<rparr>,
                                  l \<mapsto> it\<lparr>next_item := Some a\<rparr>)\<rparr>))"
        using chk False ab len lq it la by (simp add: packet_queue_write_def Let_def a_def)
      have tw: "(items av)(a \<mapsto> \<lparr>pkt = p, next_item = None\<rparr>, l \<mapsto> it\<lparr>next_item := Some a\<rparr>)
        = (items av)(l \<mapsto> it\<lparr>next_item := Some a\<rparr>, a \<mapsto> \<lparr>pkt = p, next_item = None\<rparr>)"
        using la by (simp add: fun_upd_twist)
      have d: "distinct (map fst ns)" using inv by (simp add: queue_inv_def)
      have it': "items av (fst (last ns)) = Some it" using it by (simp add: l_def)
      have qp': "qpath ((items av)(l \<mapsto> it\<lparr>next_item := Some a\<rparr>, a \<mapsto> \<lparr>pkt = p, next_item = None\<rparr>))
          (first_q ?Q) (ns @ [(a, p)])"
        unfolding l_def by (rule qpath_snoc [OF qp ne d fresh it'])
      have "queue_inv isz (snd (packet_queue_write isz av q (Some p))) q (ns @ [(brk av, p)])"
        unfolding w tw using qp' sz p False inv fresh
        by (auto simp: queue_inv_def a_def less_Suc_eq)
      then show ?thesis using False w by auto
    qed
  qed
qed

lemma write_null_inv:
  assumes "queue_inv isz av q ns"
  shows "\<exists>av'. packet_queue_write isz av q None = (Returns 0, av') \<and> queue_inv isz av' q ns"
  using assms by (simp add: packet_queue_write_def queue_inv_def)

lemma read_empty:
  assumes inv: "queue_inv isz av q []"
  shows "\<exists>r. packet_queue_read isz av q = (r, None, av) \<and> r \<noteq> Faults"
  using assms by (simp add: packet_queue_read_def queue_inv_def Let_def)

lemma read_inv:
  assumes inv: "queue_inv isz av q ((a, x) # ns)"
    and isz: "0 < uint isz"
  shows "\<exists>av'. packet_queue_read isz av q = (Returns 0, Some x, av') \<and> queue_inv isz av' q ns"
proof -
  let ?Q = "queue_of q av"
  note B = queue_inv_bytes [OF inv isz]
  have len: "length_q ?Q \<noteq> 0"
    using inv B(4) of_nat_length_eq_0 [of "length ((a, x) # ns)"]
    by (simp add: queue_inv_def)
  from inv obtain it where it: "first_q ?Q = Some a" "items av a = Some it" "pkt it = x"
    "qpath (items av) (next_item it) ns"
    by (auto simp: queue_inv_def split: option.splits)
  have r: "packet_queue_read isz av q =
    (Returns 0, Some x,
     set_queue q
       (?Q\<lparr>first_q := next_item it, length_q := length_q ?Q - 1,
            size_q := size_sub (size_q ?Q) (size_pkt x) isz\<rparr>)
       (av\<lparr>items := (items av)(a := None)\<rparr>))"
    using len it by (simp add: packet_queue_read_def Let_def)
  have xs: "0 \<le> sint (size_pkt x)" using inv by (simp add: queue_inv_def)
  have "\<forall>y \<in> set (map snd ns). 0 \<le> sint (size_pkt y)" using inv by (simp add: queue_inv_def)
  from length_le_qbytes [OF isz this] have B0: "0 \<le> qbytes isz (map snd ns)" by linarith
  have Bs: "qbytes isz (map snd ((a, x) # ns)) = sint (size_pkt x) + uint isz + qbytes isz (map snd ns)"
    by simp
  have sz: "sint (size_sub (size_q ?Q) (size_pkt x) isz) = qbytes isz (map snd ns)"
  proof -
    have "sint (size_q ?Q) - (sint (size_pkt x) + uint isz) = qbytes isz (map snd ns)"
      using B(1) Bs by linarith
    moreover have "qbytes isz (map snd ns) < 2147483648" "- 2147483648 \<le> qbytes isz (map snd ns)"
      using B(3) Bs xs isz B0 by linarith+
    ultimately show ?thesis unfolding size_sub_int by (simp add: sint_of_int_32)
  qed
  have an: "a \<notin> fst ` set ns" using inv by (auto simp: queue_inv_def)
  have lst: "ns \<noteq> [] \<Longrightarrow> last_q ?Q = Some (fst (last ns))"
    using inv by (simp add: queue_inv_def)
  have ln: "length_q ?Q - 1 = of_nat (length ns)" using inv by (simp add: queue_inv_def)
  have "queue_inv isz (snd (snd (packet_queue_read isz av q))) q ns"
    unfolding r using it(4) an sz lst ln inv B(3) Bs xs isz
    by (auto simp: queue_inv_def qpath_upd_other)
  then show ?thesis using r by auto
qed

lemma queue_contents_inv:
  assumes "queue_inv isz av q ns" and "0 < uint isz"
  shows "queue_contents av q = map snd ns"
proof -
  have "unat (length_q (queue_of q av)) = length ns"
    using assms queue_inv_bytes(4) [OF assms] by (simp add: queue_inv_def unat_of_nat_length)
  moreover have "qpath (items av) (first_q (queue_of q av)) ns"
    using assms by (simp add: queue_inv_def)
  ultimately show ?thesis by (simp add: queue_contents_def queue_items_qpath)
qed

lemma init_inv: "queue_inv isz (packet_queue_init av q) q []"
  by (simp add: queue_inv_def packet_queue_init_def)

lemma run_inv:
  assumes "queue_inv isz av q ns" and "0 < uint isz" and "uint isz \<le> 15728640"
    and "\<forall>p. Write (Some p) \<in> set ops \<longrightarrow> 0 \<le> sint (size_pkt p)"
  shows "\<exists>av' w g ns'. run_queue_ops isz q av ops = Some (av', w, g) \<and>
           queue_inv isz av' q ns' \<and> map snd ns @ w = g @ map snd ns'"
  using assms
proof (induction ops arbitrary: av ns)
  case Nil
  then show ?case by auto
next
  case (Cons op ops)
  have rest: "\<forall>p. Write (Some p) \<in> set ops \<longrightarrow> 0 \<le> sint (size_pkt p)"
    using Cons.prems(4) by auto
  show ?case
  proof (cases op)
    case (Write po)
    show ?thesis
    proof (cases po)
      case None
      from write_null_inv [OF Cons.prems(1)] obtain av1 where
        w: "packet_queue_write isz av q None = (Returns 0, av1)" and i: "queue_inv isz av1 q ns"
        by blast
      from Cons.IH [OF i Cons.prems(2,3) rest] obtain av' w' g ns' where
        "run_queue_ops isz q av1 ops = Some (av', w', g)" "queue_inv isz av' q ns'"
        "map snd ns @ w' = g @ map snd ns'" by blast
      then show ?thesis using Write None w by auto
    next
      case (Some p)
      have p: "0 \<le> sint (size_pkt p)" using Cons.prems(4) Write Some by auto
      from write_inv [OF Cons.prems(1,2,3) p] show ?thesis
      proof
        assume a: "15728640 < qbytes isz (map snd ns) + sint (size_pkt p) + uint isz \<and>
          packet_queue_write isz av q (Some p) = (Waits, av\<lparr>input_stall := 1\<rparr>)"
        have i: "queue_inv isz (av\<lparr>input_stall := 1\<rparr>) q ns" using Cons.prems(1) by simp
        from Cons.IH [OF i Cons.prems(2,3) rest] obtain av' w' g ns' where
          "run_queue_ops isz q (av\<lparr>input_stall := 1\<rparr>) ops = Some (av', w', g)"
          "queue_inv isz av' q ns'" "map snd ns @ w' = g @ map snd ns'" by blast
        then show ?thesis using Write Some a by auto
      next
        assume "qbytes isz (map snd ns) + sint (size_pkt p) + uint isz \<le> 15728640 \<and>
          (\<exists>av'. packet_queue_write isz av q (Some p) = (Returns 0, av') \<and>
                 queue_inv isz av' q (ns @ [(brk av, p)]))"
        then obtain av1 where w: "packet_queue_write isz av q (Some p) = (Returns 0, av1)"
          and i: "queue_inv isz av1 q (ns @ [(brk av, p)])" by blast
        from Cons.IH [OF i Cons.prems(2,3) rest] obtain av' w' g ns' where
          "run_queue_ops isz q av1 ops = Some (av', w', g)"
          "queue_inv isz av' q ns'" "map snd (ns @ [(brk av, p)]) @ w' = g @ map snd ns'" by blast
        then show ?thesis using Write Some w by auto
      qed
    qed
  next
    case Read
    show ?thesis
    proof (cases ns)
      case Nil
      from read_empty [of isz av q] Cons.prems(1) Nil obtain r where
        r: "packet_queue_read isz av q = (r, None, av)" "r \<noteq> Faults" by blast
      from Cons.IH [OF Cons.prems(1,2,3) rest] obtain av' w' g ns' where
        "run_queue_ops isz q av ops = Some (av', w', g)"
        "queue_inv isz av' q ns'" "map snd ns @ w' = g @ map snd ns'" by blast
      then show ?thesis using Read r by (cases r) auto
    next
      case (Cons n ns1)
      obtain a x where n: "n = (a, x)" by (cases n)
      from read_inv [of isz av q a x ns1] Cons.prems(1,2) Cons n obtain av1 where
        r: "packet_queue_read isz av q = (Returns 0, Some x, av1)" and i: "queue_inv isz av1 q ns1"
        by blast
      from Cons.IH [OF i Cons.prems(2,3) rest] obtain av' w' g ns' where
        "run_queue_ops isz q av1 ops = Some (av', w', g)"
        "queue_inv isz av' q ns'" "map snd ns1 @ w' = g @ map snd ns'" by blast
      then show ?thesis using Read r Cons n by auto
    qed
  qed
qed

lemma reads_inv:
  assumes "queue_inv isz av q ns" and "0 < uint isz"
  shows "\<exists>av'. run_queue_ops isz q av (replicate (length ns) Read) = Some (av', [], map snd ns) \<and>
           queue_inv isz av' q []"
  using assms
proof (induction ns arbitrary: av)
  case Nil
  then show ?case by simp
next
  case (Cons n ns)
  obtain a x where n: "n = (a, x)" by (cases n)
  from read_inv [of isz av q a x ns] Cons.prems n obtain av1 where
    r: "packet_queue_read isz av q = (Returns 0, Some x, av1)" and i: "queue_inv isz av1 q ns"
    by blast
  from Cons.IH [OF i Cons.prems(2)] obtain av' where
    "run_queue_ops isz q av1 (replicate (length ns) Read) = Some (av', [], map snd ns)"
    "queue_inv isz av' q []" by blast
  then show ?case using r n by auto
qed

section \<open>First in, first out\<close>

text \<open>
  Claim C3. Let \<^verbatim>\<open>sizeof(_packet_queue_item_t)\<close> be positive and at most the
  capacity, and let no packet have a negative size. From an initialised queue
  that is never aborted, any sequence of write and read attempts runs without a
  fault, and the packets that the reads return, followed by the packets still
  queued, are the packets of the completed writes in the order of the writes.
  When the writes of \<open>ps\<close> all complete, as many reads return exactly \<open>ps\<close>
  and leave the queue empty.
\<close>

theorem packet_queue_fifo:
  assumes "0 < isz" and "isz \<le> MAX_QUEUE_SIZE"
    and "\<forall>p. Write (Some p) \<in> set ops \<longrightarrow> 0 \<le> sint (size_pkt p)"
    and "\<forall>p \<in> set ps. 0 \<le> sint (size_pkt p)"
  shows "(\<exists>av' w g. run_queue_ops isz q (packet_queue_init av q) ops = Some (av', w, g) \<and>
            w = g @ queue_contents av' q)
       \<and> (\<forall>av1. run_queue_ops isz q (packet_queue_init av q) (map (\<lambda>p. Write (Some p)) ps)
                   = Some (av1, ps, []) \<longrightarrow>
            (\<exists>av2. run_queue_ops isz q av1 (replicate (length ps) Read) = Some (av2, [], ps) \<and>
                   queue_contents av2 q = []))"
proof -
  have isz: "0 < uint isz" "uint isz \<le> 15728640"
    using assms(1,2) by (simp_all add: word_less_def word_le_def uint_MAX)
  show ?thesis
  proof (intro conjI allI impI)
  from run_inv [OF init_inv [of isz av q] isz assms(3)] obtain av' w g ns' where
    r: "run_queue_ops isz q (packet_queue_init av q) ops = Some (av', w, g)"
    and i: "queue_inv isz av' q ns'" and e: "w = g @ map snd ns'" by auto
  show "\<exists>av' w g. run_queue_ops isz q (packet_queue_init av q) ops = Some (av', w, g) \<and>
            w = g @ queue_contents av' q"
    using r e queue_contents_inv [OF i isz(1)] by simp
next
  fix av1
  assume a: "run_queue_ops isz q (packet_queue_init av q) (map (\<lambda>p. Write (Some p)) ps)
               = Some (av1, ps, [])"
  have "\<forall>p. Write (Some p) \<in> set (map (\<lambda>p. Write (Some p)) ps) \<longrightarrow> 0 \<le> sint (size_pkt p)"
    using assms(4) by auto
  from run_inv [OF init_inv [of isz av q] isz this] a obtain ns' where
    i: "queue_inv isz av1 q ns'" and e: "ps = map snd ns'" by auto
  from reads_inv [OF i isz(1)] obtain av2 where
    r: "run_queue_ops isz q av1 (replicate (length ns') Read) = Some (av2, [], map snd ns')"
    and i2: "queue_inv isz av2 q []" by blast
  show "\<exists>av2. run_queue_ops isz q av1 (replicate (length ps) Read) = Some (av2, [], ps) \<and>
                   queue_contents av2 q = []"
    using r e queue_contents_inv [OF i2 isz(1)] by auto
qed
qed

theorem packet_queue_fifo_witness:
  "map_option snd
     (run_queue_ops 112 Video_queue (packet_queue_init av_calloc Video_queue)
        [Write (Some (packet 1 100)), Write (Some (packet 2 200)), Read,
         Write (Some (packet 3 300)), Read, Read])
   = Some ([packet 1 100, packet 2 200, packet 3 300],
           [packet 1 100, packet 2 200, packet 3 300])"
  using packet_queue_fifo
    [of 112
        "[Write (Some (packet 1 100)), Write (Some (packet 2 200)), Read,
          Write (Some (packet 3 300)), Read, Read]"
        "[packet 1 100, packet 2 200, packet 3 300]" Video_queue av_calloc]
  by (simp add: packet_queue_init_def av_calloc_def packet_queue_zero_def packet_queue_write_def
      packet_queue_read_def Let_def MAX_QUEUE_SIZE_def size_add_def size_sub_def packet_def)

section \<open>The capacity of a queue\<close>

lemma scast_size_add:
  fixes s ps :: int32 and isz :: size_t
  assumes "\<not> MAX_QUEUE_SIZE < scast (s + ps) + isz"
  shows "(scast (size_add s ps isz) :: size_t) = scast (s + ps) + isz"
proof -
  define W :: size_t where "W = scast (s + ps) + isz"
  have le: "uint W \<le> 15728640" using assms by (simp add: W_def word_less_def uint_MAX)
  have "W = word_of_int (sint (s + ps)) + word_of_int (uint isz)"
    unfolding W_def by (simp only: scast_eq word_of_int_uint)
  then have W: "W = word_of_int (sint (s + ps) + uint isz)" by simp
  have "size_add s ps isz = word_of_int (sint s) + word_of_int (sint ps) + word_of_int (uint isz)"
    unfolding size_add_int by simp
  also have "\<dots> = word_of_int (sint (s + ps)) + word_of_int (uint isz)"
    by simp
  also have "\<dots> = ucast W" unfolding W by (simp only: ucast_of_int_32) simp
  finally have e: "size_add s ps isz = ucast W" .
  have "(ucast W :: int32) = word_of_int (uint W)" by simp
  then have "sint (ucast W :: int32) = uint W"
    using le uint_ge_0 [of W] by (simp only: sint_of_int_32)
  then have "(scast (ucast W :: int32) :: size_t) = word_of_int (uint W)"
    by (simp only: scast_eq)
  then show ?thesis unfolding e W_def [symmetric] by (simp only: word_of_int_uint)
qed

text \<open>
  The abort flag of a queue is 0 after \<^verbatim>\<open>_packet_queue_init\<close> and 1 after
  \<^verbatim>\<open>_packet_queue_abort\<close>, and no other operation writes it.
\<close>

lemma abort_fields_set_queue:
  "abort_q Q = abort_q (queue_of q av) \<Longrightarrow> abort_fields (set_queue q Q av) = abort_fields av"
  by (cases q) (simp_all add: abort_fields_def)

lemma abort_fields_updates [simp]:
  "abort_fields (av\<lparr>items := h\<rparr>) = abort_fields av"
  "abort_fields (av\<lparr>brk := b\<rparr>) = abort_fields av"
  "abort_fields (av\<lparr>input_stall := i\<rparr>) = abort_fields av"
  "abort_fields (av\<lparr>video_calls := vc\<rparr>) = abort_fields av"
  "abort_fields (av\<lparr>audio_calls := ac\<rparr>) = abort_fields av"
  "abort_fields (av\<lparr>video_start_time := vt\<rparr>) = abort_fields av"
  "abort_fields (av\<lparr>audio_start_time := at\<rparr>) = abort_fields av"
  "abort_fields (av\<lparr>paused := pa\<rparr>) = abort_fields av"
  "abort_fields (av\<lparr>last_paused := lp\<rparr>) = abort_fields av"
  "abort_fields (av\<lparr>video_eof := ve\<rparr>) = abort_fields av"
  "abort_fields (av\<lparr>audio_eof := ae\<rparr>) = abort_fields av"
  by (simp_all add: abort_fields_def)

lemma abort_fields_repeat_previous [simp]: "abort_fields (repeat_previous p av) = abort_fields av"
  by (induction p av rule: repeat_previous.induct) (subst repeat_previous.simps, simp)

lemma abort_fields_audio_resample:
  "audio_resample rs count drop_n av = Some av' \<Longrightarrow> abort_fields av' = abort_fields av"
  by (induction rs arbitrary: count av) (auto simp: Let_def split: if_splits)

lemma abort_fields_flush_loop [simp]:
  "abort_fields (snd (packet_queue_flush_loop av q)) = abort_fields av"
  by (induction av q rule: packet_queue_flush_loop.induct)
    (subst packet_queue_flush_loop.simps, simp add: abort_fields_set_queue split: option.splits)

lemma abort_fields_calls [simp]:
  "abort_fields (snd (av_ffmpeg_read_video av k now front flipped)) = abort_fields av"
  "abort_fields (snd (av_ffmpeg_read_audio av flipped)) = abort_fields av"
  "abort_fields (snd (video_scaler_frame rescale_q av frame)) = abort_fields av"
  "abort_fields (snd (packet_queue_write isz av q pkt_opt)) = abort_fields av"
  "abort_fields (snd (snd (packet_queue_read isz av q))) = abort_fields av"
  "abort_fields (snd (packet_queue_flush av q)) = abort_fields av"
  by (simp_all add: av_ffmpeg_read_video_def av_ffmpeg_read_audio_def video_scaler_frame_def
      video_scaler_output_def packet_queue_write_def packet_queue_read_def
      packet_queue_flush_def Let_def split_def abort_fields_set_queue split: option.splits)

lemma abort_fields_audio_frame:
  "audio_scaler_frame rescale_q av frame rs = Some (r, av') \<Longrightarrow> abort_fields av' = abort_fields av"
  by (auto simp: audio_scaler_frame_def Let_def dest!: abort_fields_audio_resample
      split: if_splits option.splits)

lemma abort_flags_ok_init:
  "abort_flags_ok (packet_queue_init (packet_queue_init av Video_queue) Audio_queue)"
  by (simp add: abort_flags_ok_def packet_queue_init_def)

lemma abort_flags_ok_step:
  assumes "abort_flags_ok av"
  shows "abort_flags_ok (av_step isz rescale_q av op)"
proof -
  have e: "abort_flags_ok x" if "abort_fields x = abort_fields av" for x
    using that assms by (simp add: abort_flags_ok_def abort_fields_def)
  show ?thesis
  proof (cases op)
    case (Op_audio_frame frame rs)
    then show ?thesis using assms
      by (cases "audio_scaler_frame rescale_q av frame rs")
        (auto intro!: e dest: abort_fields_audio_frame)
  next
    case (Op_queue_abort q)
    then show ?thesis using assms
      by (cases q) (simp_all add: abort_flags_ok_def packet_queue_abort_def)
  qed (simp_all add: e)
qed

lemma abort_flags_ok_queue:
  "abort_flags_ok av \<Longrightarrow> abort_q (queue_of q av) = 0 \<or> abort_q (queue_of q av) = 1"
  by (cases q) (simp_all add: abort_flags_ok_def)

text \<open>
  Claim C4. Take any queue whose abort flag is 0 or 1, the two values that the
  code ever stores in it. A write of a packet that returns 0 found the flag at
  0 and the sum \<^verbatim>\<open>q->size + pkt->size + sizeof(_packet_queue_item_t)\<close> at most
  \<^verbatim>\<open>MAX_QUEUE_SIZE\<close>, and the size field it leaves is that sum. With the flag
  at 0 and the sum over the capacity the call waits and enqueues nothing. With
  the flag at 1 it returns -2, and only the stall flag of the state has changed.
\<close>

theorem write_never_exceeds_capacity:
  assumes "abort_q (queue_of q av) = 0 \<or> abort_q (queue_of q av) = 1"
  shows "(\<forall>av'. packet_queue_write isz av q (Some p) = (Returns 0, av') \<longrightarrow>
            abort_q (queue_of q av) = 0 \<and>
            \<not> MAX_QUEUE_SIZE < scast (size_q (queue_of q av) + size_pkt p) + isz \<and>
            scast (size_q (queue_of q av')) = scast (size_q (queue_of q av) + size_pkt p) + isz \<and>
            (scast (size_q (queue_of q av')) :: size_t) \<le> MAX_QUEUE_SIZE)
       \<and> (abort_q (queue_of q av) = 0 \<and>
            MAX_QUEUE_SIZE < scast (size_q (queue_of q av) + size_pkt p) + isz \<longrightarrow>
            packet_queue_write isz av q (Some p) = (Waits, av\<lparr>input_stall := 1\<rparr>))
       \<and> (abort_q (queue_of q av) = 1 \<longrightarrow>
            packet_queue_write isz av q (Some p) = (Returns (- 2), av\<lparr>input_stall := 0\<rparr>))"
proof (intro conjI allI impI)
  fix av'
  assume w: "packet_queue_write isz av q (Some p) = (Returns 0, av')"
  show ab: "abort_q (queue_of q av) = 0"
    using w assms by (auto simp: packet_queue_write_def split: if_splits)
  show c: "\<not> MAX_QUEUE_SIZE < scast (size_q (queue_of q av) + size_pkt p) + isz"
    using w ab by (auto simp: packet_queue_write_def split: if_splits)
  have "size_q (queue_of q av') = size_add (size_q (queue_of q av)) (size_pkt p) isz"
    using w ab c
    by (auto simp: packet_queue_write_def Let_def split: if_splits option.splits)
  then show e: "scast (size_q (queue_of q av')) = scast (size_q (queue_of q av) + size_pkt p) + isz"
    using scast_size_add [OF c] by simp
  show "(scast (size_q (queue_of q av')) :: size_t) \<le> MAX_QUEUE_SIZE"
    unfolding e using c by simp
next
  assume "abort_q (queue_of q av) = 0 \<and>
            MAX_QUEUE_SIZE < scast (size_q (queue_of q av) + size_pkt p) + isz"
  then show "packet_queue_write isz av q (Some p) = (Waits, av\<lparr>input_stall := 1\<rparr>)"
    by (simp add: packet_queue_write_def)
next
  assume "abort_q (queue_of q av) = 1"
  then show "packet_queue_write isz av q (Some p) = (Returns (- 2), av\<lparr>input_stall := 0\<rparr>)"
    by (simp add: packet_queue_write_def)
qed

theorem write_never_exceeds_capacity_witness:
  "fst (packet_queue_write 112 av_queues Video_queue (Some (packet 1 15728528))) = Returns 0
   \<and> size_q (queue_of Video_queue
         (snd (packet_queue_write 112 av_queues Video_queue (Some (packet 1 15728528))))) = 15728640
   \<and> packet_queue_write 112 av_queues Video_queue (Some (packet 1 15728529))
       = (Waits, av_queues\<lparr>input_stall := 1\<rparr>)
   \<and> packet_queue_write 112 (packet_queue_abort av_queues Video_queue) Video_queue
         (Some (packet 1 100))
       = (Returns (- 2), (packet_queue_abort av_queues Video_queue)\<lparr>input_stall := 0\<rparr>)"
  using write_never_exceeds_capacity [of Video_queue av_queues 112 "packet 1 15728528"]
    write_never_exceeds_capacity [of Video_queue av_queues 112 "packet 1 15728529"]
    write_never_exceeds_capacity
      [of Video_queue "packet_queue_abort av_queues Video_queue" 112 "packet 1 100"]
  by (simp add: av_queues_def packet_queue_init_def av_calloc_def packet_queue_zero_def
      packet_queue_write_def packet_queue_abort_def Let_def MAX_QUEUE_SIZE_def size_add_def
      packet_def)

section \<open>The counters after a flush\<close>

text \<open>
  Claim C5 at a failing input. An initialised queue takes one packet of 100
  bytes, with 112 bytes per item, and is flushed. The flush returns 0 and frees
  the item, yet \<^verbatim>\<open>length\<close> is left at -1 and \<^verbatim>\<open>size\<close> at 212: the loop
  \<^verbatim>\<open>while(q->length--)\<close> decrements once more after the last item, and nothing
  in it touches \<^verbatim>\<open>size\<close>.
\<close>

theorem flush_leaves_stale_counters:
  "fst (packet_queue_write 112 av_queues Video_queue (Some (packet 1 100))) = Returns 0
   \<and> fst (packet_queue_flush
         (snd (packet_queue_write 112 av_queues Video_queue (Some (packet 1 100)))) Video_queue)
       = Returns 0
   \<and> items (snd (packet_queue_flush
         (snd (packet_queue_write 112 av_queues Video_queue (Some (packet 1 100)))) Video_queue))
       = Map.empty
   \<and> length_q (queue_of Video_queue (snd (packet_queue_flush
         (snd (packet_queue_write 112 av_queues Video_queue (Some (packet 1 100)))) Video_queue)))
       = - 1
   \<and> size_q (queue_of Video_queue (snd (packet_queue_flush
         (snd (packet_queue_write 112 av_queues Video_queue (Some (packet 1 100)))) Video_queue)))
       = 212"
  by (simp add: av_queues_def packet_queue_init_def av_calloc_def packet_queue_zero_def
      packet_queue_write_def packet_queue_flush_def Let_def MAX_QUEUE_SIZE_def size_add_def
      packet_def packet_queue_flush_loop.simps)

section \<open>Reading an empty queue during a stall\<close>

text \<open>
  Claim C6 as the specification states it: the status of a read that meets an
  empty queue and a set stall flag differs from the status of success, and the
  flag is that of the same queue. Here a write blocks on the video queue; the
  read of the empty audio queue then returns 0 and stores no packet, and 0 is
  also what a read returns with a packet.
\<close>

theorem stall_status_counterexample:
  "packet_queue_write 112 av_queues Video_queue (Some (packet 1 15728529))
     = (Waits, av_queues\<lparr>input_stall := 1\<rparr>)
   \<and> length_q (queue_of Audio_queue (av_queues\<lparr>input_stall := 1\<rparr>)) = 0
   \<and> packet_queue_read 112 (av_queues\<lparr>input_stall := 1\<rparr>) Audio_queue
       = (Returns 0, None, av_queues\<lparr>input_stall := 1\<rparr>)
   \<and> fst (packet_queue_read 112
         (snd (packet_queue_write 112 av_queues Audio_queue (Some (packet 2 100)))) Audio_queue)
       = Returns 0
   \<and> fst (snd (packet_queue_read 112
         (snd (packet_queue_write 112 av_queues Audio_queue (Some (packet 2 100)))) Audio_queue))
       = Some (packet 2 100)"
  by (simp add: av_queues_def packet_queue_init_def av_calloc_def packet_queue_zero_def
      packet_queue_write_def packet_queue_read_def Let_def MAX_QUEUE_SIZE_def size_add_def
      size_sub_def packet_def)

text \<open>A write that waits has set the stall flag and changed nothing else.\<close>

lemma write_waits_stall:
  assumes "fst (packet_queue_write isz av q (Some p)) = Waits"
  shows "packet_queue_write isz av q (Some p) = (Waits, av\<lparr>input_stall := 1\<rparr>)"
proof (cases "abort_q (queue_of q av) = 0 \<and>
              MAX_QUEUE_SIZE < scast (size_q (queue_of q av) + size_pkt p) + isz")
  case True
  then show ?thesis
    by (simp add: packet_queue_write_def)
next
  case False
  then have "fst (packet_queue_write isz av q (Some p)) \<noteq> Waits"
    by (simp add: packet_queue_write_def Let_def split: option.split)
  then show ?thesis
    using assms by simp
qed

text \<open>
  Claim C6, amended. A read that finds its queue empty while \<^verbatim>\<open>input_stall\<close> is
  set returns 0 at once, stores no packet and changes nothing, also when the
  queue is at its end or aborted. With the flag clear, a read of an empty queue
  never returns 0: it returns -2 on an aborted queue, -1 at the end of the
  stream, and waits otherwise. So 0 tells a stall from the end of the stream and
  from an abort; but 0 is also the status of every read that stores a packet.
  The flag is one for both queues: after a write has blocked on any queue, a
  read of any empty queue returns in this way.
\<close>

theorem read_on_stall_returns_zero:
  assumes "length_q (queue_of q av) = 0" and "input_stall av \<noteq> 0"
  shows "packet_queue_read isz av q = (Returns 0, None, av)
       \<and> (length_q (queue_of q3 av3) = 0 \<and> input_stall av3 = 0 \<longrightarrow>
            packet_queue_read isz av3 q3 =
              (if abort_q (queue_of q3 av3) = 1 then Returns (- 2)
               else if eof_q (queue_of q3 av3) = 1 then Returns (- 1)
               else Waits,
               None, av3)
            \<and> fst (packet_queue_read isz av3 q3) \<noteq> Returns 0)
       \<and> (\<forall>r x av'. packet_queue_read isz av1 q1 = (r, Some x, av') \<longrightarrow> r = Returns 0)
       \<and> (\<forall>av' q'. packet_queue_write isz av2 q2 (Some p) = (Waits, av') \<and>
                    length_q (queue_of q' av') = 0 \<longrightarrow>
              packet_queue_read isz av' q' = (Returns 0, None, av'))"
proof (intro conjI allI impI)
  show "packet_queue_read isz av q = (Returns 0, None, av)"
    using assms by (simp add: packet_queue_read_def)
next
  assume "length_q (queue_of q3 av3) = 0 \<and> input_stall av3 = 0"
  then show "packet_queue_read isz av3 q3 =
              (if abort_q (queue_of q3 av3) = 1 then Returns (- 2)
               else if eof_q (queue_of q3 av3) = 1 then Returns (- 1)
               else Waits,
               None, av3)"
    by (simp add: packet_queue_read_def)
next
  assume "length_q (queue_of q3 av3) = 0 \<and> input_stall av3 = 0"
  then show "fst (packet_queue_read isz av3 q3) \<noteq> Returns 0"
    by (simp add: packet_queue_read_def Let_def)
next
  fix r x av'
  assume "packet_queue_read isz av1 q1 = (r, Some x, av')"
  then have "fst (packet_queue_read isz av1 q1) = r"
    and "fst (snd (packet_queue_read isz av1 q1)) = Some x"
    by simp_all
  then show "r = Returns 0"
    by (simp add: packet_queue_read_def Let_def split: if_splits option.splits)
next
  fix av' q'
  assume a: "packet_queue_write isz av2 q2 (Some p) = (Waits, av') \<and>
             length_q (queue_of q' av') = 0"
  then have "fst (packet_queue_write isz av2 q2 (Some p)) = Waits"
    by simp
  then have "av' = av2\<lparr>input_stall := 1\<rparr>"
    using a write_waits_stall [of isz av2 q2 p] by simp
  then have "input_stall av' \<noteq> 0"
    by simp
  then show "packet_queue_read isz av' q' = (Returns 0, None, av')"
    using a by (simp add: packet_queue_read_def)
qed

theorem read_on_stall_returns_zero_witness:
  "packet_queue_read 112
     (snd (packet_queue_write 112 av_queues Video_queue (Some (packet 1 15728529)))) Audio_queue
   = (Returns 0, None, av_queues\<lparr>input_stall := 1\<rparr>)
   \<and> fst (packet_queue_read 112
        (snd (packet_queue_write 112 av_queues Audio_queue None)) Audio_queue) = Returns (- 1)
   \<and> fst (packet_queue_read 112 (packet_queue_abort av_queues Audio_queue) Audio_queue)
       = Returns (- 2)
   \<and> fst (packet_queue_read 112 av_queues Audio_queue) = Waits"
proof -
  have w: "snd (packet_queue_write 112 av_queues Video_queue (Some (packet 1 15728529)))
             = av_queues\<lparr>input_stall := 1\<rparr>"
    by (simp add: av_queues_def packet_queue_init_def av_calloc_def packet_queue_zero_def
        packet_queue_write_def Let_def MAX_QUEUE_SIZE_def packet_def)
  have s: "length_q (queue_of Audio_queue (av_queues\<lparr>input_stall := 1\<rparr>)) = 0"
    "input_stall (av_queues\<lparr>input_stall := 1\<rparr>) \<noteq> 0"
    by (simp_all add: av_queues_def packet_queue_init_def)
  have e: "length_q (queue_of Audio_queue
             (snd (packet_queue_write 112 av_queues Audio_queue None))) = 0
           \<and> input_stall (snd (packet_queue_write 112 av_queues Audio_queue None)) = 0"
    "eof_q (queue_of Audio_queue (snd (packet_queue_write 112 av_queues Audio_queue None))) = 1"
    "abort_q (queue_of Audio_queue (snd (packet_queue_write 112 av_queues Audio_queue None))) = 0"
    by (simp_all add: av_queues_def packet_queue_init_def av_calloc_def packet_queue_zero_def
        packet_queue_write_def)
  have a: "length_q (queue_of Audio_queue (packet_queue_abort av_queues Audio_queue)) = 0
           \<and> input_stall (packet_queue_abort av_queues Audio_queue) = 0"
    "abort_q (queue_of Audio_queue (packet_queue_abort av_queues Audio_queue)) = 1"
    by (simp_all add: av_queues_def packet_queue_init_def av_calloc_def packet_queue_zero_def
        packet_queue_abort_def)
  have n: "length_q (queue_of Audio_queue av_queues) = 0 \<and> input_stall av_queues = 0"
    "eof_q (queue_of Audio_queue av_queues) = 0"
    "abort_q (queue_of Audio_queue av_queues) = 0"
    by (simp_all add: av_queues_def packet_queue_init_def av_calloc_def packet_queue_zero_def)
  have "packet_queue_read 112 (av_queues\<lparr>input_stall := 1\<rparr>) Audio_queue
          = (Returns 0, None, av_queues\<lparr>input_stall := 1\<rparr>)"
    using read_on_stall_returns_zero [OF s, THEN conjunct1] .
  moreover have "fst (packet_queue_read 112
        (snd (packet_queue_write 112 av_queues Audio_queue None)) Audio_queue) = Returns (- 1)"
    using read_on_stall_returns_zero [OF s, THEN conjunct2, THEN conjunct1, rule_format, OF e(1),
        THEN conjunct1, of 112]
    by (simp only: e fst_conv) simp
  moreover have "fst (packet_queue_read 112 (packet_queue_abort av_queues Audio_queue)
        Audio_queue) = Returns (- 2)"
    using read_on_stall_returns_zero [OF s, THEN conjunct2, THEN conjunct1, rule_format, OF a(1),
        THEN conjunct1, of 112]
    by (simp only: a fst_conv) simp
  moreover have "fst (packet_queue_read 112 av_queues Audio_queue) = Waits"
    using read_on_stall_returns_zero [OF s, THEN conjunct2, THEN conjunct1, rule_format, OF n(1),
        THEN conjunct1, of 112]
    by (simp only: n fst_conv) simp
  ultimately show ?thesis
    by (simp only: w simp_thms)
qed

section \<open>Audio drift correction\<close>




section \<open>The end of the streams\<close>

lemma eof_fields_set_queue [simp]: "eof_fields (set_queue q Q av) = eof_fields av"
  by (cases q) (simp_all add: eof_fields_def)

lemma eof_fields_updates [simp]:
  "eof_fields (av\<lparr>items := h\<rparr>) = eof_fields av"
  "eof_fields (av\<lparr>brk := b\<rparr>) = eof_fields av"
  "eof_fields (av\<lparr>input_stall := i\<rparr>) = eof_fields av"
  "eof_fields (av\<lparr>video_calls := vc\<rparr>) = eof_fields av"
  "eof_fields (av\<lparr>audio_calls := ac\<rparr>) = eof_fields av"
  "eof_fields (av\<lparr>video_start_time := vt\<rparr>) = eof_fields av"
  "eof_fields (av\<lparr>audio_start_time := at\<rparr>) = eof_fields av"
  "eof_fields (av\<lparr>paused := pa\<rparr>) = eof_fields av"
  "eof_fields (av\<lparr>last_paused := lp\<rparr>) = eof_fields av"
  by (simp_all add: eof_fields_def)

lemma eof_fields_repeat_previous [simp]: "eof_fields (repeat_previous p av) = eof_fields av"
  by (induction p av rule: repeat_previous.induct) (subst repeat_previous.simps, simp)

lemma eof_fields_audio_resample:
  "audio_resample rs count drop_n av = Some av' \<Longrightarrow> eof_fields av' = eof_fields av"
  by (induction rs arbitrary: count av) (auto simp: Let_def split: if_splits)

lemma eof_fields_flush_loop [simp]:
  "eof_fields (snd (packet_queue_flush_loop av q)) = eof_fields av"
  by (induction av q rule: packet_queue_flush_loop.induct)
    (subst packet_queue_flush_loop.simps, simp split: option.splits)

lemma eof_fields_video_frame [simp]:
  "eof_fields (snd (video_scaler_frame rescale_q av frame)) = eof_fields av"
  by (simp add: video_scaler_frame_def video_scaler_output_def Let_def split_def
      split: option.splits)

lemma eof_fields_audio_frame:
  "audio_scaler_frame rescale_q av frame rs = Some (r, av') \<Longrightarrow> eof_fields av' = eof_fields av"
  by (auto simp: audio_scaler_frame_def Let_def dest!: eof_fields_audio_resample
      split: if_splits option.splits)

lemma eof_fields_queue_calls [simp]:
  "eof_fields (snd (packet_queue_write isz av q pkt_opt)) = eof_fields av"
  "eof_fields (snd (snd (packet_queue_read isz av q))) = eof_fields av"
  "eof_fields (packet_queue_abort av q) = eof_fields av"
  "eof_fields (snd (packet_queue_flush av q)) = eof_fields av"
  by (simp_all add: packet_queue_write_def packet_queue_read_def packet_queue_abort_def
      packet_queue_flush_def Let_def split: option.splits)

lemma eof_from_fields:
  "av_ffmpeg_eof av =
     (case eof_fields av of (vs, ve, as, ae) \<Rightarrow>
        if (vs \<noteq> None \<and> ve = 0) \<or> (as \<noteq> None \<and> ae = 0) then 0 else 1)"
  by (simp add: av_ffmpeg_eof_def eof_fields_def)

lemma eof_fields_read_video:
  "eof_fields (snd (av_ffmpeg_read_video av k now front flipped)) = eof_fields av \<or>
   eof_fields (snd (av_ffmpeg_read_video av k now front flipped)) =
     (video_stream av, 1, audio_stream av, audio_eof av)"
  by (simp add: av_ffmpeg_read_video_def Let_def eof_fields_def split: option.splits)

lemma eof_fields_read_audio:
  "eof_fields (snd (av_ffmpeg_read_audio av flipped)) = eof_fields av \<or>
   eof_fields (snd (av_ffmpeg_read_audio av flipped)) =
     (video_stream av, video_eof av, audio_stream av, 1)"
  by (simp add: av_ffmpeg_read_audio_def eof_fields_def split: option.splits)

lemma eof_fields_av_step:
  "eof_fields (av_step isz rescale_q av op) = eof_fields av \<or>
   eof_fields (av_step isz rescale_q av op) = (video_stream av, 1, audio_stream av, audio_eof av) \<or>
   eof_fields (av_step isz rescale_q av op) = (video_stream av, video_eof av, audio_stream av, 1)"
proof (cases op)
  case (Op_read_video k now front flipped)
  then show ?thesis using eof_fields_read_video [of av k now front flipped] by auto
next
  case (Op_read_audio flipped)
  then show ?thesis using eof_fields_read_audio [of av flipped] by auto
next
  case (Op_audio_frame frame rs)
  then show ?thesis
    by (cases "audio_scaler_frame rescale_q av frame rs")
      (auto dest: eof_fields_audio_frame)
qed simp_all

lemma av_step_keeps_eof:
  assumes "av_ffmpeg_eof av = 1"
  shows "av_ffmpeg_eof (av_step isz rescale_q av op) = 1"
proof -
  have "(video_stream av = None \<or> video_eof av \<noteq> 0) \<and> (audio_stream av = None \<or> audio_eof av \<noteq> 0)"
    using assms unfolding av_ffmpeg_eof_def by (cases "video_stream av = None"; cases "audio_stream av = None"; simp split: if_splits)
  then show ?thesis
    using eof_fields_av_step [of isz rescale_q av op]
    unfolding eof_from_fields [of "av_step isz rescale_q av op"]
    by (auto simp: eof_fields_def)
qed

lemma av_steps_keep_eof:
  "av_ffmpeg_eof av = 1 \<Longrightarrow> av_ffmpeg_eof (foldl (av_step isz rescale_q) av ops) = 1"
  by (induction ops arbitrary: av) (simp_all add: av_step_keeps_eof)

text \<open>
  Claim C8. The streams with a pull call are the video and the audio stream, and
  their sticky flags are \<^verbatim>\<open>video_eof\<close> and \<^verbatim>\<open>audio_eof\<close>. \<^verbatim>\<open>_av_ffmpeg_eof\<close> returns
  1 exactly when the video stream is absent or \<^verbatim>\<open>video_eof\<close> is set, and the audio
  stream is absent or \<^verbatim>\<open>audio_eof\<close> is set; otherwise it returns 0. Once it
  returns 1 it returns 1 after every further sequence of pull calls, worker
  steps and queue calls.
\<close>

theorem eof_of_video_and_audio:
  "(av_ffmpeg_eof av = 1) =
     ((video_stream av \<noteq> None \<longrightarrow> video_eof av \<noteq> 0) \<and>
      (audio_stream av \<noteq> None \<longrightarrow> audio_eof av \<noteq> 0))
   \<and> (av_ffmpeg_eof av \<noteq> 1 \<longrightarrow> av_ffmpeg_eof av = 0)
   \<and> (av_ffmpeg_eof av = 1 \<longrightarrow> av_ffmpeg_eof (foldl (av_step isz rescale_q) av ops) = 1)"
  using av_steps_keep_eof [of av isz rescale_q ops]
  by (auto simp: av_ffmpeg_eof_def)

theorem eof_of_video_and_audio_witness:
  "av_ffmpeg_eof av_video_1to1 = 0
   \<and> av_ffmpeg_eof (snd (av_ffmpeg_read_video av_video_1to1 None 1000 (1 :: nat) None)) = 1
   \<and> av_ffmpeg_eof
       (foldl (av_step 112 av_rescale_q)
          (snd (av_ffmpeg_read_video av_video_1to1 None 1000 (1 :: nat) None))
          [Op_read_video (Some Key_space) 1001 (1 :: nat) None,
           Op_video_frame (picture 7),
           Op_queue_write Video_queue None,
           Op_read_audio None]) = 1"
  using eof_of_video_and_audio [of av_video_1to1 112 av_rescale_q "[] :: nat av_op list"]
    eof_of_video_and_audio
      [of "snd (av_ffmpeg_read_video av_video_1to1 None 1000 (1 :: nat) None)" 112 av_rescale_q
          "[Op_read_video (Some Key_space) 1001 (1 :: nat) None,
            Op_video_frame (picture 7),
            Op_queue_write Video_queue None,
            Op_read_audio None]"]
  by (simp add: av_video_1to1_def av_calloc_def av_ffmpeg_eof_def av_ffmpeg_read_video_def
      Let_def AVSEEK_FWD_def AVSEEK_RWD_def word_sless_alt av_ffmpeg_read_audio_def
      video_scaler_frame_def video_scaler_output_def packet_queue_write_def split_def
      AV_NOPTS_VALUE_def av_rescale_q_def repeat_previous.simps picture_def stream_1to1_def)

end
